theory Spec2Isabelle
  imports Main "HOL-Library.Sublist" "HOL-Library.AList" "HOL-Library.Multiset"
begin

section \<open>Strings\<close>

text \<open>
  A Python \<open>str\<close> is modelled as a \<open>string\<close>, one \<open>char\<close> per code point
  (code points below 256). \<open>isspace\<close> is \<open>str.isspace\<close> on that range; the same
  predicate decides what \<open>str.strip()\<close> trims and what the regular expression class
  \<open>\s\<close> matches.
\<close>

definition isspace :: "char \<Rightarrow> bool" where
  "isspace c = ((of_char c :: nat) \<in> {9, 10, 11, 12, 13, 28, 29, 30, 31, 32, 133, 160})"

text \<open>\<open>s.lstrip(chars)\<close>, \<open>s.rstrip(chars)\<close> and \<open>s.strip(chars)\<close> for a set of characters.\<close>

definition lstrip_chars :: "(char \<Rightarrow> bool) \<Rightarrow> string \<Rightarrow> string" where
  "lstrip_chars p s = dropWhile p s"

definition rstrip_chars :: "(char \<Rightarrow> bool) \<Rightarrow> string \<Rightarrow> string" where
  "rstrip_chars p s = rev (dropWhile p (rev s))"

definition strip_chars :: "(char \<Rightarrow> bool) \<Rightarrow> string \<Rightarrow> string" where
  "strip_chars p s = rstrip_chars p (lstrip_chars p s)"

definition strip :: "string \<Rightarrow> string" where
  "strip s = strip_chars isspace s"

text \<open>\<open>sep.join(xs)\<close>.\<close>

fun join :: "string \<Rightarrow> string list \<Rightarrow> string" where
  "join sep [] = []"
| "join sep [x] = x"
| "join sep (x # y # ys) = x @ sep @ join sep (y # ys)"

text \<open>\<open>s.split(sep)\<close> for a one-character separator: never returns the empty list.\<close>

fun split_char :: "char \<Rightarrow> string \<Rightarrow> string list" where
  "split_char d [] = [[]]"
| "split_char d (c # cs) =
     (if c = d then [] # split_char d cs
      else (case split_char d cs of
              [] \<Rightarrow> [[c]]
            | w # ws \<Rightarrow> (c # w) # ws))"

text \<open>\<open>s.startswith(p)\<close> is \<open>prefix p s\<close>, \<open>s.endswith(p)\<close> is \<open>suffix p s\<close>;
  \<open>p in s\<close> on strings is \<open>contains p s\<close>.\<close>

fun contains :: "string \<Rightarrow> string \<Rightarrow> bool" where
  "contains p [] = (p = [])"
| "contains p (c # cs) = (prefix p (c # cs) \<or> contains p cs)"

section \<open>The document tree\<close>

text \<open>
  The parsed document is the tree BeautifulSoup builds: strings and tags. A tag has a
  name, attributes and children. With the \<open>html.parser\<close> builder the \<open>class\<close> attribute
  is a list of tokens (absent: \<open>None\<close>) and every other attribute this program reads
  (\<open>style\<close>, \<open>href\<close>) is a string, so the class list has a field of its own and
  \<open>attrs\<close> is the ordered dictionary of the string attributes.

  A tag is a Python object that the program changes in place and reaches through several
  lists, so every tag carries its identity \<open>ident\<close>: the tags of one document have
  pairwise different idents, and a tag keeps its ident whatever is changed in it.

  A string is a \<open>Text\<close> when its class is \<open>NavigableString\<close> or \<open>CData\<close>. Every other
  string is an \<open>Other\<close>: a comment, a doctype or declaration, and the strings that the
  builder puts inside \<open>script\<close>, \<open>style\<close> and \<open>template\<close> tags (and, where the builder
  gives them a class of their own, inside \<open>rt\<close> and \<open>rp\<close>). A string keeps its class
  when the tags around it change.
\<close>

record elem =
  ident :: nat
  name :: string
  cls :: "string list option"
  attrs :: "(string \<times> string) list"

datatype node = Text string | Other string | Element elem "node list"

type_synonym tag = "elem \<times> node list"

datatype error = RuntimeError string | IndexError | KeyError | ValueError

section \<open>Style Merger and Color-Class Resolver\<close>

definition CSS_COLOR_MAP :: "(string \<times> string) list" where
  "CSS_COLOR_MAP =
     [(''default'', ''black''), (''gray'', ''gray''), (''brown'', ''saddlebrown''),
      (''orange'', ''orange''), (''yellow'', ''gold''), (''teal'', ''teal''),
      (''blue'', ''blue''), (''purple'', ''purple''), (''pink'', ''deeppink''),
      (''red'', ''red'')]"

text \<open>\<open>el.get("style", "")\<close>.\<close>

definition get_style :: "elem \<Rightarrow> string" where
  "get_style el = (case map_of (attrs el) ''style'' of None \<Rightarrow> [] | Some s \<Rightarrow> s)"

text \<open>\<open>el[k] = v\<close>: an existing key keeps its place, a new key goes last.\<close>

definition set_attr :: "string \<Rightarrow> string \<Rightarrow> elem \<Rightarrow> elem" where
  "set_attr k v el = el\<lparr>attrs := AList.update k v (attrs el)\<rparr>"

definition merge_style :: "elem \<Rightarrow> string \<Rightarrow> elem" where
  "merge_style el new_rules =
     (let existing = rstrip_chars (\<lambda>c. c = CHR '';'') (strip (get_style el))
      in set_attr ''style''
           (if existing \<noteq> [] then existing @ '';'' @ new_rules else new_rules) el)"

text \<open>
  \<open>re.match(r"(?:highlight|block-color)-([a-z_]+)$", cls)\<close>: the key is group 1.
  \<open>$\<close> matches at the end of the string and also just before a newline that ends it.
\<close>

definition is_key_char :: "char \<Rightarrow> bool" where
  "is_key_char c = (c = CHR ''_'' \<or> (97 \<le> (of_char c :: nat) \<and> (of_char c :: nat) \<le> 122))"

definition key_of :: "string \<Rightarrow> string option" where
  "key_of r =
     (let k = (if r \<noteq> [] \<and> last r = CHR 0x0A then butlast r else r)
      in if k \<noteq> [] \<and> list_all is_key_char k then Some k else None)"

definition color_key :: "string \<Rightarrow> string option" where
  "color_key c =
     (if prefix ''highlight-'' c then key_of (drop 10 c)
      else if prefix ''block-color-'' c then key_of (drop 12 c)
      else None)"

definition class_list :: "elem \<Rightarrow> string list" where
  "class_list el = (case cls el of None \<Rightarrow> [] | Some l \<Rightarrow> l)"

text \<open>\<open>classes.remove(cls)\<close>: the first occurrence goes; ValueError when there is none.\<close>

definition list_remove :: "'a \<Rightarrow> 'a list \<Rightarrow> error + 'a list" where
  "list_remove x xs = (if x \<in> set xs then Inr (remove1 x xs) else Inl ValueError)"

text \<open>
  Lines 49 to 52, the style part of the loop body for a token whose key is \<open>key\<close>, and
  the same for any token (a token that does not match is skipped by \<open>continue\<close>).
\<close>

definition apply_color :: "string \<Rightarrow> elem \<Rightarrow> elem" where
  "apply_color key el =
     (if \<not> suffix ''_background'' key then
        (case map_of CSS_COLOR_MAP key of
           None \<Rightarrow> el
         | Some col \<Rightarrow> if col \<noteq> [] then merge_style el (''color:'' @ col) else el)
      else el)"

definition token_effect :: "string \<Rightarrow> elem \<Rightarrow> elem" where
  "token_effect c el = (case color_key c of None \<Rightarrow> el | Some key \<Rightarrow> apply_color key el)"

text \<open>
  \<open>for cls in list(classes)\<close>: the first argument is the copy being iterated, the live
  class list is the element's \<open>cls\<close> field.
\<close>

fun color_loop :: "string list \<Rightarrow> elem \<Rightarrow> error + elem" where
  "color_loop [] el = Inr el"
| "color_loop (c # cs) el =
     (case color_key c of
        None \<Rightarrow> color_loop cs el
      | Some key \<Rightarrow>
          (let el1 = apply_color key el
           in case list_remove c (class_list el1) of
                Inl e \<Rightarrow> Inl e
              | Inr l' \<Rightarrow> color_loop cs (el1\<lparr>cls := Some l'\<rparr>)))"

definition convert_color_classes_to_inline :: "elem \<Rightarrow> error + elem" where
  "convert_color_classes_to_inline el =
     (case cls el of
        None \<Rightarrow> Inr el
      | Some classes \<Rightarrow>
          if classes = [] then Inr el
          else (case color_loop classes el of
                  Inl e \<Rightarrow> Inl e
                | Inr el' \<Rightarrow>
                    Inr (if cls el' \<noteq> Some [] then el' else el'\<lparr>cls := None\<rparr>)))"

section \<open>Reading the tree\<close>

text \<open>
  \<open>tag.find_all(...)\<close>: the descendant tags that satisfy a test, in document order (a
  tag before its own descendants). The result is a list built before the caller's loop
  runs. \<open>find_all(True)\<close> takes every tag, \<open>find_all("td")\<close> the tags of that name;
  \<open>tag.find(n)\<close> is the first of \<open>find_all(n)\<close> or \<open>None\<close> (here \<open>find_tag\<close>, since
  \<open>find\<close> is a function on lists already).
\<close>

fun find_all_node :: "(elem \<Rightarrow> bool) \<Rightarrow> node \<Rightarrow> tag list" where
  "find_all_node p (Text s) = []"
| "find_all_node p (Other s) = []"
| "find_all_node p (Element e ch) =
     (if p e then [(e, ch)] else []) @ concat (map (find_all_node p) ch)"

definition find_all :: "(elem \<Rightarrow> bool) \<Rightarrow> node list \<Rightarrow> tag list" where
  "find_all p ns = concat (map (find_all_node p) ns)"

definition named :: "string \<Rightarrow> elem \<Rightarrow> bool" where
  "named n e = (name e = n)"

definition find_tag :: "string \<Rightarrow> node list \<Rightarrow> tag option" where
  "find_tag n ns = (case find_all (named n) ns of [] \<Rightarrow> None | t # _ \<Rightarrow> Some t)"

text \<open>
  \<open>tag.get_text(sep, strip=True)\<close>: the descendant strings whose class is
  \<open>NavigableString\<close> or \<open>CData\<close>, in document order, each stripped, the empty ones
  dropped, joined by \<open>sep\<close>. Strings of another class (comments, the content of
  \<open>script\<close>, \<open>style\<close> and \<open>template\<close>) are left out.
\<close>

fun all_strings :: "node \<Rightarrow> string list" where
  "all_strings (Text s) = [s]"
| "all_strings (Other s) = []"
| "all_strings (Element e ch) = concat (map all_strings ch)"

definition get_text :: "string \<Rightarrow> tag \<Rightarrow> string" where
  "get_text sep t =
     join sep (filter (\<lambda>s. s \<noteq> []) (map strip (concat (map all_strings (snd t)))))"

section \<open>Inline Sanitizer\<close>

definition ALLOWED_TAGS :: "string list" where
  "ALLOWED_TAGS =
     [''strong'', ''b'', ''em'', ''i'', ''u'', ''code'', ''pre'', ''span'', ''br'',
      ''ul'', ''ol'', ''li'', ''a'', ''div'']"

text \<open>
  \<open>for el in cell.find_all(...): body(el)\<close> where the body changes only the tag it is
  given (its name, class list and attributes): every descendant tag that passes the test
  gets the body, in document order, and the first exception ends the loop.
\<close>

fun for_each :: "(elem \<Rightarrow> bool) \<Rightarrow> (elem \<Rightarrow> error + elem) \<Rightarrow> node \<Rightarrow> error + node"
  and for_each_list ::
    "(elem \<Rightarrow> bool) \<Rightarrow> (elem \<Rightarrow> error + elem) \<Rightarrow> node list \<Rightarrow> error + node list"
where
  "for_each p f (Text s) = Inr (Text s)"
| "for_each p f (Other s) = Inr (Other s)"
| "for_each p f (Element e ch) =
     (case (if p e then f e else Inr e) of
        Inl x \<Rightarrow> Inl x
      | Inr e' \<Rightarrow>
          (case for_each_list p f ch of
             Inl x \<Rightarrow> Inl x
           | Inr ch' \<Rightarrow> Inr (Element e' ch')))"
| "for_each_list p f [] = Inr []"
| "for_each_list p f (n # ns) =
     (case for_each p f n of
        Inl x \<Rightarrow> Inl x
      | Inr n' \<Rightarrow>
          (case for_each_list p f ns of
             Inl x \<Rightarrow> Inl x
           | Inr ns' \<Rightarrow> Inr (n' # ns')))"

text \<open>The same loop for a body that cannot raise.\<close>

fun map_elems :: "(elem \<Rightarrow> elem) \<Rightarrow> node \<Rightarrow> node" where
  "map_elems f (Text s) = Text s"
| "map_elems f (Other s) = Other s"
| "map_elems f (Element e ch) = Element (f e) (map (map_elems f) ch)"

text \<open>Lines 74 to 76: \<open>mark.name = "span"; convert_color_classes_to_inline(mark)\<close>.\<close>

definition mark_to_span :: "elem \<Rightarrow> error + elem" where
  "mark_to_span mark = convert_color_classes_to_inline (mark\<lparr>name := ''span''\<rparr>)"

text \<open>Lines 83 to 85: \<open>href = a.get("href"); a.attrs = {"href": href} if href else {}\<close>.
  Assigning \<open>attrs\<close> replaces the whole dictionary, the class list with it.\<close>

definition clean_anchor :: "elem \<Rightarrow> elem" where
  "clean_anchor a =
     (if name a = ''a'' then
        (case map_of (attrs a) ''href'' of
           None \<Rightarrow> a\<lparr>cls := None, attrs := []\<rparr>
         | Some href \<Rightarrow>
             if href \<noteq> [] then a\<lparr>cls := None, attrs := [(''href'', href)]\<rparr>
             else a\<lparr>cls := None, attrs := []\<rparr>)
      else a)"

text \<open>
  Lines 88 to 90: every tag whose name is not allowed is unwrapped, that is, replaced in
  its parent by its children. The tags are listed before the first unwrap, so the
  children of an unwrapped tag are treated too.
\<close>

fun unwrap_node :: "node \<Rightarrow> node list" where
  "unwrap_node (Text s) = [Text s]"
| "unwrap_node (Other s) = [Other s]"
| "unwrap_node (Element e ch) =
     (if name e \<in> set ALLOWED_TAGS then [Element e (concat (map unwrap_node ch))]
      else concat (map unwrap_node ch))"

text \<open>Lines 94 to 99 (and again lines 118 to 123): the new value of a style attribute.\<close>

definition is_background :: "string \<Rightarrow> bool" where
  "is_background s = prefix ''background-color'' (strip s)"

definition strip_background :: "string \<Rightarrow> string" where
  "strip_background style =
     (let styles = filter (\<lambda>s. \<not> is_background s) (split_char (CHR '';'') style)
      in join '';'' (filter (\<lambda>s. strip s \<noteq> []) styles))"

definition strip_style :: "elem \<Rightarrow> elem" where
  "strip_style el =
     (case map_of (attrs el) ''style'' of
        None \<Rightarrow> el
      | Some style \<Rightarrow> set_attr ''style'' (strip_background style) el)"

text \<open>Lines 73 to 99: the passes over the cell's tree, in the order of the source.\<close>

definition sanitize_tree :: "node list \<Rightarrow> error + node list" where
  "sanitize_tree contents =
     (case for_each_list (named ''mark'') mark_to_span contents of
        Inl x \<Rightarrow> Inl x
      | Inr c1 \<Rightarrow>
          (case for_each_list (named ''span'') convert_color_classes_to_inline c1 of
             Inl x \<Rightarrow> Inl x
           | Inr c2 \<Rightarrow>
               Inr (map (map_elems strip_style)
                      (concat (map unwrap_node (map (map_elems clean_anchor) c2))))))"

text \<open>\<open>s.replace(old, new)\<close> for a non-empty \<open>old\<close>: leftmost occurrences, not overlapping.\<close>

function replace :: "string \<Rightarrow> string \<Rightarrow> string \<Rightarrow> string" where
  "replace old new [] = []"
| "replace old new (c # cs) =
     (if old \<noteq> [] \<and> prefix old (c # cs)
      then new @ replace old new (drop (length old) (c # cs))
      else c # replace old new cs)"
  by pat_completeness auto
termination
  by (relation "measure (\<lambda>(old, new, s). length s)") auto

text \<open>
  The first occurrence of \<open>pat\<close> in \<open>s\<close>: what stands before it and what stands after.
\<close>

fun split_first :: "string \<Rightarrow> string \<Rightarrow> (string \<times> string) option" where
  "split_first pat [] = (if pat = [] then Some ([], []) else None)"
| "split_first pat (c # cs) =
     (if prefix pat (c # cs) then Some ([], drop (length pat) (c # cs))
      else (case split_first pat cs of
              None \<Rightarrow> None
            | Some (a, b) \<Rightarrow> Some (c # a, b)))"

definition FENCE :: string where
  "FENCE = [CHR 0x60, CHR 0x60, CHR 0x60]"

text \<open>
  \<open>re.sub(r"```(.*?)```", repl, s, flags=re.DOTALL)\<close>: scanning from the left, an
  opening fence matches when a closing fence follows it; group 1 is the shortest text
  between them, that is, up to the first closing fence; the scan goes on after the match.
  Where nothing matches, the character is kept.
\<close>

function fence_sub :: "(string \<Rightarrow> string) \<Rightarrow> string \<Rightarrow> string" where
  "fence_sub repl [] = []"
| "fence_sub repl (c # cs) =
     (if prefix FENCE (c # cs) then
        (case split_first FENCE (drop 3 (c # cs)) of
           Some (inner, rest) \<Rightarrow> repl inner @ fence_sub repl rest
         | None \<Rightarrow> c # fence_sub repl cs)
      else c # fence_sub repl cs)"
  by pat_completeness auto
termination
proof (relation "measure (\<lambda>(repl, s). length s)")
  fix repl :: "string \<Rightarrow> string" and c cs x2 x y
  assume "split_first FENCE (drop 3 (c # cs)) = Some x2" and "(x, y) = x2"
  moreover have "split_first pat s = Some (a, b) \<Longrightarrow> length b \<le> length s" for pat s a b
    by (induction s arbitrary: a) (auto split: if_splits option.splits)
  ultimately have "length y \<le> length (drop 3 (c # cs))"
    by metis
  then show "((repl, y), (repl, c # cs)) \<in> measure (\<lambda>(repl, s). length s)"
    by simp
qed auto

text \<open>
  The HTML parser and the serializer are BeautifulSoup's: \<open>parse\<close> stands for
  \<open>BeautifulSoup(text, "html.parser")\<close> (the children of the parsed document) and
  \<open>decode\<close> for \<open>decode_contents()\<close> of the tag with these children.
\<close>

definition DIV_OPEN :: string where
  "DIV_OPEN =
     ''<div style='' @ [CHR 0x22] @ ''font-family:Menlo,Consolas,'' @ [CHR 0x27]
       @ ''Courier New'' @ [CHR 0x27] @ '',monospace; white-space:pre'' @ [CHR 0x22]
       @ ''>''"

definition fence_replacer ::
  "(string \<Rightarrow> node list) \<Rightarrow> (node list \<Rightarrow> string) \<Rightarrow> string \<Rightarrow> string" where
  "fence_replacer parse decode inner =
     (let inner_soup = map (map_elems strip_style) (parse inner)
      in DIV_OPEN @ decode inner_soup @ ''</div>'')"

text \<open>Lines 102 to 137: from the cleaned tree to the returned string.\<close>

definition render :: "(string \<Rightarrow> node list) \<Rightarrow> (node list \<Rightarrow> string) \<Rightarrow> node list \<Rightarrow> string" where
  "render parse decode contents =
     (let html_str = replace ''<br />'' ''<br/>'' (replace ''<br>'' ''<br/>'' (decode contents));
          tmp = replace ''<br/>'' [CHR 0x0A] html_str;
          tmp = fence_sub (fence_replacer parse decode) tmp
      in replace [CHR 0x0A] ''<br/>'' tmp)"

text \<open>
  \<open>sanitize_inline_html(cell, strip_all)\<close> returns a string and changes the cell in place:
  the model returns the cell as the call leaves it, and the string.
\<close>

definition sanitize_inline_html ::
  "(string \<Rightarrow> node list) \<Rightarrow> (node list \<Rightarrow> string) \<Rightarrow> tag \<Rightarrow> bool \<Rightarrow> error + (tag \<times> string)" where
  "sanitize_inline_html parse decode cell strip_all =
     (if strip_all then Inr (cell, get_text '' '' cell)
      else (case sanitize_tree (snd cell) of
              Inl x \<Rightarrow> Inl x
            | Inr contents \<Rightarrow> Inr ((fst cell, contents), render parse decode contents)))"

section \<open>Tag Normalizer\<close>

text \<open>\<open>re.split(r"[,;\n]+", raw)\<close>: the pieces between the runs of separators; a piece
  at either end may be empty.\<close>

definition is_sep :: "char \<Rightarrow> bool" where
  "is_sep c = (c = CHR '','' \<or> c = CHR '';'' \<or> c = CHR 0x0A)"

function split_seps :: "string \<Rightarrow> string list" where
  "split_seps [] = [[]]"
| "split_seps (c # cs) =
     (if is_sep c then [] # split_seps (dropWhile is_sep cs)
      else (case split_seps cs of
              [] \<Rightarrow> [[c]]
            | w # ws \<Rightarrow> (c # w) # ws))"
  by pat_completeness auto
termination
  by (relation "measure length") (auto simp: length_dropWhile_le less_Suc_eq_le)

text \<open>\<open>re.sub(r"\s+", "-", tok)\<close>: every run of whitespace becomes one dash.\<close>

function dash_spaces :: "string \<Rightarrow> string" where
  "dash_spaces [] = []"
| "dash_spaces (c # cs) =
     (if isspace c then CHR ''-'' # dash_spaces (dropWhile isspace cs)
      else c # dash_spaces cs)"
  by pat_completeness auto
termination
  by (relation "measure length") (auto simp: length_dropWhile_le less_Suc_eq_le)

definition clean_token :: "string \<Rightarrow> string" where
  "clean_token tok =
     strip_chars (\<lambda>c. c = CHR '','' \<or> c = CHR '';'') (dash_spaces (strip tok))"

text \<open>The loop of lines 160 to 164 over \<open>tokens\<close>, with the list \<open>clean\<close> and the set \<open>seen\<close>.\<close>

fun tags_loop :: "string list \<Rightarrow> string list \<Rightarrow> string set \<Rightarrow> string list" where
  "tags_loop [] clean seen = clean"
| "tags_loop (tok # toks) clean seen =
     (let tok' = clean_token tok
      in if tok' \<noteq> [] \<and> tok' \<notin> seen
         then tags_loop toks (clean @ [tok']) (insert tok' seen)
         else tags_loop toks clean seen)"

definition tags_of_text :: "string \<Rightarrow> string list" where
  "tags_of_text raw =
     (let tokens = map strip (filter (\<lambda>t. strip t \<noteq> []) (split_seps raw))
      in tags_loop tokens [] {})"

definition tags_from_cell :: "tag \<Rightarrow> string" where
  "tags_from_cell cell = join '' '' (tags_of_text (get_text '' '' cell))"

section \<open>Table Locator\<close>

text \<open>\<open>str.lower()\<close> on the code points below 256.\<close>

definition lower_char :: "char \<Rightarrow> char" where
  "lower_char c =
     (let n = (of_char c :: nat)
      in if (65 \<le> n \<and> n \<le> 90) \<or> (192 \<le> n \<and> n \<le> 222 \<and> n \<noteq> 215)
         then char_of (n + 32) else c)"

definition lower :: "string \<Rightarrow> string" where
  "lower s = map lower_char s"

text \<open>The loop over \<open>enumerate(headers)\<close> that fills \<open>col_map\<close>.\<close>

fun col_loop :: "nat \<Rightarrow> string list \<Rightarrow> (string \<rightharpoonup> nat) \<Rightarrow> (string \<rightharpoonup> nat)" where
  "col_loop idx [] col_map = col_map"
| "col_loop idx (header # rest) col_map =
     col_loop (Suc idx) rest
       (if contains ''notion-id'' header then col_map(''id'' \<mapsto> idx)
        else if header = ''front'' then col_map(''front'' \<mapsto> idx)
        else if header = ''back'' then col_map(''back'' \<mapsto> idx)
        else if contains ''tags'' header then col_map(''tags'' \<mapsto> idx)
        else col_map)"

definition missing_column :: "string \<Rightarrow> error" where
  "missing_column col =
     RuntimeError (''Missing required column '' @ [CHR 0x27] @ col @ [CHR 0x27]
                   @ '' in Notion table.'')"

fun check_required :: "string list \<Rightarrow> (string \<rightharpoonup> nat) \<Rightarrow> error option" where
  "check_required [] col_map = None"
| "check_required (col # cols) col_map =
     (if col \<notin> dom col_map then Some (missing_column col)
      else check_required cols col_map)"

definition headers_of :: "tag \<Rightarrow> string list" where
  "headers_of thead = map (\<lambda>th. lower (get_text [] th)) (find_all (named ''th'') (snd thead))"

definition parse_table :: "node list \<Rightarrow> error + (tag \<times> (string \<rightharpoonup> nat))" where
  "parse_table soup =
     (case find_tag ''table'' soup of
        None \<Rightarrow> Inl (RuntimeError ''Could not find <table> in HTML export.'')
      | Some table \<Rightarrow>
          (case find_tag ''thead'' (snd table) of
             None \<Rightarrow> Inl (RuntimeError ''Could not find <thead> in HTML table.'')
           | Some thead \<Rightarrow>
               (let col_map = col_loop 0 (headers_of thead) Map.empty
                in case check_required [''id'', ''front'', ''back''] col_map of
                     Some e \<Rightarrow> Inl e
                   | None \<Rightarrow> Inr (table, col_map))))"

section \<open>Conversion Orchestrator\<close>

record card =
  Notion_ID :: string
  Front :: string
  Back :: string
  Tags :: string

text \<open>
  The rows and cells are lists of tag objects, built by \<open>find_all\<close> before the sanitizer
  changes the document in place. The state of the loop over the rows is \<open>doc\<close>, the
  children of the body section as they are now.

  \<open>deref doc r\<close> is the tag with ident \<open>r\<close> as the document holds it. \<open>current doc t\<close>
  is what the tag object \<open>t\<close> holds now: the tag of that ident in the document, or, when
  an \<open>unwrap\<close> has taken the tag out of the tree, the tag without children (\<open>unwrap\<close> moves
  the children of the tag to its parent). \<open>put_contents r c\<close> gives the tag with ident
  \<open>r\<close> the children \<open>c\<close>, which is what the sanitizer leaves of a cell.
\<close>

definition deref :: "node list \<Rightarrow> nat \<Rightarrow> tag option" where
  "deref doc r = (case find_all (\<lambda>e. ident e = r) doc of [] \<Rightarrow> None | t # _ \<Rightarrow> Some t)"

definition current :: "node list \<Rightarrow> tag \<Rightarrow> tag" where
  "current doc t = (case deref doc (ident (fst t)) of None \<Rightarrow> (fst t, []) | Some t' \<Rightarrow> t')"

fun put_contents :: "nat \<Rightarrow> node list \<Rightarrow> node \<Rightarrow> node" where
  "put_contents r c (Text s) = Text s"
| "put_contents r c (Other s) = Other s"
| "put_contents r c (Element e ch) =
     (if ident e = r then Element e c else Element e (map (put_contents r c) ch))"

text \<open>\<open>tds[col_map[k]]\<close>: KeyError for a missing key, IndexError past the end of the row
  (the indices of \<open>col_map\<close> are never negative).\<close>

definition cell_at :: "(string \<rightharpoonup> nat) \<Rightarrow> string \<Rightarrow> tag list \<Rightarrow> error + tag" where
  "cell_at col_map k tds =
     (case col_map k of
        None \<Rightarrow> Inl KeyError
      | Some i \<Rightarrow> if i < length tds then Inr (tds ! i) else Inl IndexError)"

text \<open>
  Lines 231 to 243, for the non-empty list \<open>tds\<close> that \<open>tr.find_all("td")\<close> has just built
  from the document \<open>doc\<close>. The id cell and the front cell are read, which changes
  nothing; the back cell is sanitized in place, which gives the document \<open>doc'\<close>; the tags
  cell is read from \<open>doc'\<close>. The result is the record and \<open>doc'\<close>.
\<close>

definition convert_row ::
  "(string \<Rightarrow> node list) \<Rightarrow> (node list \<Rightarrow> string) \<Rightarrow> (string \<rightharpoonup> nat) \<Rightarrow> node list
     \<Rightarrow> tag list \<Rightarrow> error + (card \<times> node list)" where
  "convert_row parse decode col_map doc tds =
     (case cell_at col_map ''id'' tds of
        Inl x \<Rightarrow> Inl x
      | Inr id_cell \<Rightarrow>
     (case cell_at col_map ''front'' tds of
        Inl x \<Rightarrow> Inl x
      | Inr front_cell \<Rightarrow>
     (case sanitize_inline_html parse decode front_cell True of
        Inl x \<Rightarrow> Inl x
      | Inr (_, front_plain) \<Rightarrow>
     (case cell_at col_map ''back'' tds of
        Inl x \<Rightarrow> Inl x
      | Inr back_cell \<Rightarrow>
     (case sanitize_inline_html parse decode back_cell False of
        Inl x \<Rightarrow> Inl x
      | Inr (back_cell', back_html) \<Rightarrow>
     (let doc' = map (put_contents (ident (fst back_cell)) (snd back_cell')) doc
      in case (if ''tags'' \<in> dom col_map
               then (case cell_at col_map ''tags'' tds of
                       Inl x \<Rightarrow> Inl x
                     | Inr tags_cell \<Rightarrow> Inr (tags_from_cell (current doc' tags_cell)))
               else Inr []) of
        Inl x \<Rightarrow> Inl x
      | Inr tags \<Rightarrow>
          Inr (\<lparr>Notion_ID = get_text [] id_cell, Front = front_plain,
                Back = back_html, Tags = tags\<rparr>, doc')))))))"

text \<open>
  \<open>for tr in tbody.find_all("tr")\<close>: the list \<open>trs\<close> was built at the start; the cells of a
  row are looked up when the loop reaches the row. A row without cells is skipped, the
  first exception ends the conversion, and nothing is written then.
\<close>

fun convert_rows ::
  "(string \<Rightarrow> node list) \<Rightarrow> (node list \<Rightarrow> string) \<Rightarrow> (string \<rightharpoonup> nat) \<Rightarrow> tag list
     \<Rightarrow> node list \<Rightarrow> card list \<Rightarrow> error + card list" where
  "convert_rows parse decode col_map [] doc rows_out = Inr rows_out"
| "convert_rows parse decode col_map (tr # trs) doc rows_out =
     (let tds = find_all (named ''td'') (snd (current doc tr))
      in if tds = [] then convert_rows parse decode col_map trs doc rows_out
         else (case convert_row parse decode col_map doc tds of
                 Inl x \<Rightarrow> Inl x
               | Inr (row, doc') \<Rightarrow>
                   convert_rows parse decode col_map trs doc' (rows_out @ [row])))"

text \<open>
  \<open>convert_file\<close> from the parsed document to the rows handed to the CSV writer; reading
  the input file and writing the output file are outside the model.
\<close>

definition convert_file ::
  "(string \<Rightarrow> node list) \<Rightarrow> (node list \<Rightarrow> string) \<Rightarrow> node list \<Rightarrow> error + card list" where
  "convert_file parse decode soup =
     (case parse_table soup of
        Inl x \<Rightarrow> Inl x
      | Inr (table, col_map) \<Rightarrow>
          (case find_tag ''tbody'' (snd table) of
             None \<Rightarrow> Inl (RuntimeError ''Could not find <tbody> in HTML table.'')
           | Some tbody \<Rightarrow>
               convert_rows parse decode col_map (find_all (named ''tr'') (snd tbody))
                 (snd tbody) []))"

section \<open>Notions used in the statements\<close>

text \<open>What \<open>merge_style\<close> takes as the existing style: the attribute's value, trimmed, without
  the semicolons that end it.\<close>

definition existing_style :: "elem \<Rightarrow> string" where
  "existing_style el = rstrip_chars (\<lambda>c. c = CHR '';'') (strip (get_style el))"

text \<open>A class token the resolver recognises, and the resolver's result in closed form.\<close>

definition is_color :: "string \<Rightarrow> bool" where
  "is_color c = (color_key c \<noteq> None)"

definition resolve :: "elem \<Rightarrow> elem" where
  "resolve el =
     (case cls el of
        None \<Rightarrow> el
      | Some l \<Rightarrow>
          if l = [] then el
          else (let l' = filter (\<lambda>c. \<not> is_color c) l
                in (fold token_effect l el)\<lparr>cls := (if l' = [] then None else Some l')\<rparr>))"

text \<open>The tags of a tree in document order, and its links.\<close>

fun elems :: "node \<Rightarrow> elem list" where
  "elems (Text s) = []"
| "elems (Other s) = []"
| "elems (Element e ch) = e # concat (map elems ch)"

definition elems_list :: "node list \<Rightarrow> elem list" where
  "elems_list ns = concat (map elems ns)"

definition links :: "node list \<Rightarrow> elem list" where
  "links ns = filter (named ''a'') (elems_list ns)"

text \<open>What the first two loops of the sanitizer do to one tag, given that the resolver
  never raises.\<close>

definition mark_step :: "elem \<Rightarrow> elem" where
  "mark_step e = (if named ''mark'' e then resolve (e\<lparr>name := ''span''\<rparr>) else e)"

definition span_step :: "elem \<Rightarrow> elem" where
  "span_step e = (if named ''span'' e then resolve e else e)"

text \<open>A link reduced to its \<open>href\<close>: no attribute at all when the link has no \<open>href\<close> or
  an empty one.\<close>

definition href_only :: "elem \<Rightarrow> elem" where
  "href_only a =
     \<lparr>ident = ident a, name = ''a'', cls = None,
      attrs = (case map_of (attrs a) ''href'' of
                 None \<Rightarrow> []
               | Some href \<Rightarrow> if href = [] then [] else [(''href'', href)])\<rparr>"

text \<open>The strings that \<open>get_text\<close> joins: stripped, the empty ones dropped.\<close>

definition pieces :: "node list \<Rightarrow> string list" where
  "pieces ns = filter (\<lambda>s. s \<noteq> []) (map strip (concat (map all_strings ns)))"

text \<open>
  A tag that the passes before the background pass leave alone: its name is allowed, it
  is not a link, and none of its class tokens is a color marker. A style value that holds
  only background-color declarations and blank ones. A tag whose style attribute, when it
  has one, is set to the empty string.
\<close>

definition plain_elem :: "elem \<Rightarrow> bool" where
  "plain_elem e =
     (name e \<in> set ALLOWED_TAGS \<and> name e \<noteq> ''a'' \<and>
      list_all (\<lambda>c. color_key c = None) (class_list e))"

definition bg_only :: "string \<Rightarrow> bool" where
  "bg_only style =
     list_all (\<lambda>d. is_background d \<or> strip d = []) (split_char (CHR '';'') style)"

definition blank_style :: "elem \<Rightarrow> elem" where
  "blank_style e =
     (case map_of (attrs e) ''style'' of None \<Rightarrow> e | Some _ \<Rightarrow> set_attr ''style'' [] e)"

text \<open>
  The tokens that \<open>tags_from_cell\<close> loops over, a list without its later duplicates, and
  the characters a normalized tag may hold.
\<close>

definition tokens_of :: "string \<Rightarrow> string list" where
  "tokens_of raw = map strip (filter (\<lambda>t. strip t \<noteq> []) (split_seps raw))"

definition first_seen :: "'a list \<Rightarrow> 'a list" where
  "first_seen xs = rev (remdups (rev xs))"

definition tag_char :: "char \<Rightarrow> bool" where
  "tag_char c = (c \<noteq> CHR '','' \<and> c \<noteq> CHR '';'' \<and> \<not> isspace c)"




text \<open>
  The role a header gets in the loop of \<open>parse_table\<close>, headers that give every required
  role a column, and a document with a table, a header section whose headers do so, and a
  body section.
\<close>

definition maps_role :: "string \<Rightarrow> string \<Rightarrow> bool" where
  "maps_role role header =
     (if contains ''notion-id'' header then role = ''id''
      else if header = ''front'' then role = ''front''
      else if header = ''back'' then role = ''back''
      else if contains ''tags'' header then role = ''tags''
      else False)"

definition required_mapped :: "string list \<Rightarrow> bool" where
  "required_mapped headers =
     list_all (\<lambda>role. list_ex (maps_role role) headers) [''id'', ''front'', ''back'']"

definition well_formed :: "node list \<Rightarrow> bool" where
  "well_formed soup =
     (case find_tag ''table'' soup of
        None \<Rightarrow> False
      | Some table \<Rightarrow>
          (case find_tag ''thead'' (snd table) of
             None \<Rightarrow> False
           | Some thead \<Rightarrow>
               required_mapped (headers_of thead) \<and> find_tag ''tbody'' (snd table) \<noteq> None))"

text \<open>
  The cells a row has in a document; a row that has a cell at every index of the column
  map (the tags column is optional); the document after the loop body ran on a row; and
  the rows of a list, each with the document it finds when all rows before it were
  converted.
\<close>

definition cells :: "node list \<Rightarrow> tag \<Rightarrow> tag list" where
  "cells doc tr = find_all (named ''td'') (snd (current doc tr))"

definition in_range :: "(string \<rightharpoonup> nat) \<Rightarrow> tag list \<Rightarrow> bool" where
  "in_range col_map tds =
     list_all (\<lambda>k. case col_map k of None \<Rightarrow> k = ''tags'' | Some i \<Rightarrow> i < length tds)
       [''id'', ''front'', ''back'', ''tags'']"

definition required_present :: "(string \<rightharpoonup> nat) \<Rightarrow> bool" where
  "required_present col_map =
     list_all (\<lambda>k. col_map k \<noteq> None) [''id'', ''front'', ''back'']"

definition row_doc :: "(string \<rightharpoonup> nat) \<Rightarrow> node list \<Rightarrow> tag \<Rightarrow> node list" where
  "row_doc col_map doc tr =
     (let tds = cells doc tr
      in case col_map ''back'' of
           None \<Rightarrow> doc
         | Some k \<Rightarrow>
             if k < length tds then
               (case sanitize_tree (snd (tds ! k)) of
                  Inl _ \<Rightarrow> doc
                | Inr tree \<Rightarrow> map (put_contents (ident (fst (tds ! k))) tree) doc)
             else doc)"

fun found :: "(string \<rightharpoonup> nat) \<Rightarrow> node list \<Rightarrow> tag list \<Rightarrow> (tag \<times> node list) list" where
  "found col_map doc [] = []"
| "found col_map doc (tr # trs) = (tr, doc) # found col_map (row_doc col_map doc tr) trs"

definition has_cells :: "tag \<times> node list \<Rightarrow> bool" where
  "has_cells r = (cells (snd r) (fst r) \<noteq> [])"

definition row_fits :: "(string \<rightharpoonup> nat) \<Rightarrow> tag \<times> node list \<Rightarrow> bool" where
  "row_fits col_map r = (\<not> has_cells r \<or> in_range col_map (cells (snd r) (fst r)))"

section \<open>Stripping strings\<close>

lemma lstrip_chars_id: "s \<noteq> [] \<Longrightarrow> \<not> p (hd s) \<Longrightarrow> lstrip_chars p s = s"
  by (cases s) (simp_all add: lstrip_chars_def)

lemma rstrip_chars_id: "s \<noteq> [] \<Longrightarrow> \<not> p (last s) \<Longrightarrow> rstrip_chars p s = s"
  by (cases s rule: rev_cases) (simp_all add: rstrip_chars_def)

lemma rstrip_chars_prefix: "s = rstrip_chars p s @ rev (takeWhile p (rev s))"
proof -
  have "s = rev (takeWhile p (rev s) @ dropWhile p (rev s))"
    by (simp only: takeWhile_dropWhile_id rev_rev_ident)
  also have "\<dots> = rev (dropWhile p (rev s)) @ rev (takeWhile p (rev s))"
    by (rule rev_append)
  finally show ?thesis by (simp only: rstrip_chars_def)
qed

lemma rstrip_chars_hd: "rstrip_chars p s \<noteq> [] \<Longrightarrow> hd (rstrip_chars p s) = hd s"
  using rstrip_chars_prefix [of s p] by (metis hd_append2)

lemma lstrip_chars_hd: "lstrip_chars p s \<noteq> [] \<Longrightarrow> \<not> p (hd (lstrip_chars p s))"
  by (simp add: lstrip_chars_def hd_dropWhile)

lemma strip_chars_hd: "strip_chars p s \<noteq> [] \<Longrightarrow> \<not> p (hd (strip_chars p s))"
proof -
  assume ne: "strip_chars p s \<noteq> []"
  then have "hd (strip_chars p s) = hd (lstrip_chars p s)"
    by (simp add: strip_chars_def rstrip_chars_hd)
  moreover have "lstrip_chars p s \<noteq> []"
    using ne by (auto simp: strip_chars_def rstrip_chars_def)
  ultimately show ?thesis by (simp add: lstrip_chars_hd)
qed

lemma strip_chars_id:
  "s \<noteq> [] \<Longrightarrow> \<not> p (hd s) \<Longrightarrow> \<not> p (last s) \<Longrightarrow> strip_chars p s = s"
  by (simp add: strip_chars_def lstrip_chars_id rstrip_chars_id)

section \<open>The Style Merger appends\<close>

lemma get_style_set_attr: "get_style (set_attr ''style'' v el) = v"
  by (simp add: get_style_def set_attr_def update_conv')

lemma merge_style_value:
  "get_style (merge_style el f) =
     (if existing_style el \<noteq> [] then existing_style el @ '';'' @ f else f)"
  by (simp add: merge_style_def Let_def get_style_set_attr existing_style_def)

lemma existing_style_hd:
  assumes "existing_style el \<noteq> []" shows "\<not> isspace (hd (existing_style el))"
proof -
  from assms have "hd (existing_style el) = hd (strip (get_style el))"
    by (simp add: existing_style_def rstrip_chars_hd)
  moreover from assms have "strip (get_style el) \<noteq> []"
    by (auto simp: existing_style_def rstrip_chars_def)
  ultimately show ?thesis by (simp add: strip_def strip_chars_hd)
qed

lemma existing_style_merged:
  assumes "f \<noteq> []" "\<not> isspace (hd f)" "\<not> isspace (last f)" "last f \<noteq> CHR '';''"
  shows "existing_style (merge_style el f) = get_style (merge_style el f)"
proof -
  let ?s = "get_style (merge_style el f)"
  have ne: "?s \<noteq> []" using assms(1) by (simp add: merge_style_value)
  have l: "last ?s = last f" using assms(1) by (simp add: merge_style_value)
  have h: "\<not> isspace (hd ?s)"
    using assms(2) existing_style_hd [of el] by (simp add: merge_style_value)
  have "strip ?s = ?s"
    unfolding strip_def using ne h l assms(3) by (simp add: strip_chars_id)
  then show ?thesis
    using ne l assms(4) by (simp add: existing_style_def rstrip_chars_id)
qed

text \<open>
  C6, as amended. The Style Merger is not idempotent, it appends. The new style is the
  fragment alone when the existing style is empty once trimmed of whitespace and of the
  semicolons that end it, and otherwise the trimmed existing style, a semicolon and the
  fragment. Given the same fragment a second time (a non-empty fragment that neither
  starts nor ends with whitespace and does not end with a semicolon, such as
  \<open>color:red\<close>), it appends the fragment again: the style is then the style after one
  application, a semicolon and the fragment.
\<close>

theorem merge_style_appends:
  "get_style (merge_style el f) =
     (if existing_style el \<noteq> [] then existing_style el @ '';'' @ f else f) \<and>
   (f \<noteq> [] \<and> \<not> isspace (hd f) \<and> \<not> isspace (last f) \<and> last f \<noteq> CHR '';'' \<longrightarrow>
      get_style (merge_style (merge_style el f) f) = get_style (merge_style el f) @ '';'' @ f)"
proof (intro conjI impI)
  show "get_style (merge_style el f) =
     (if existing_style el \<noteq> [] then existing_style el @ '';'' @ f else f)"
    by (rule merge_style_value)
next
  assume a: "f \<noteq> [] \<and> \<not> isspace (hd f) \<and> \<not> isspace (last f) \<and> last f \<noteq> CHR '';''"
  then have e: "existing_style (merge_style el f) = get_style (merge_style el f)"
    by (simp add: existing_style_merged)
  have "get_style (merge_style el f) \<noteq> []" using a by (simp add: merge_style_value)
  with e show "get_style (merge_style (merge_style el f) f) = get_style (merge_style el f) @ '';'' @ f"
    by (simp add: merge_style_value [of "merge_style el f"])
qed

text \<open>
  C6, witness: a span whose style is \<open>" font-weight:bold; "\<close> and the fragment
  \<open>color:red\<close>, merged twice.
\<close>

theorem merge_style_appends_witness:
  "get_style (merge_style (merge_style
      \<lparr>ident = 1, name = ''span'', cls = None, attrs = [(''style'', '' font-weight:bold; '')]\<rparr>
      ''color:red'') ''color:red'')
     = ''font-weight:bold;color:red;color:red''"
  using merge_style_appends
    [of "\<lparr>ident = 1, name = ''span'', cls = None, attrs = [(''style'', '' font-weight:bold; '')]\<rparr>"
        "''color:red''"]
  by (simp add: existing_style_def get_style_def strip_def strip_chars_def
      lstrip_chars_def rstrip_chars_def isspace_def)

text \<open>
  C6, counterexample to the claim as stated (applying the Style Merger twice with the same
  fragment gives the style of one application): on a span without a style and the
  fragment \<open>color:red\<close>, one application gives \<open>color:red\<close> and two give
  \<open>color:red;color:red\<close>.
\<close>

theorem merge_style_twice_counterexample:
  "get_style (merge_style \<lparr>ident = 1, name = ''span'', cls = None, attrs = []\<rparr> ''color:red'')
     = ''color:red'' \<and>
   get_style (merge_style (merge_style \<lparr>ident = 1, name = ''span'', cls = None, attrs = []\<rparr>
       ''color:red'') ''color:red'')
     = ''color:red;color:red'' \<and>
   get_style (merge_style (merge_style \<lparr>ident = 1, name = ''span'', cls = None, attrs = []\<rparr>
       ''color:red'') ''color:red'')
     \<noteq> get_style (merge_style \<lparr>ident = 1, name = ''span'', cls = None, attrs = []\<rparr> ''color:red'')"
  by (simp add: merge_style_def get_style_def set_attr_def strip_def strip_chars_def
      lstrip_chars_def rstrip_chars_def isspace_def)

section \<open>The Color-Class Resolver\<close>

lemma merge_style_fields [simp]:
  "name (merge_style el r) = name el" "cls (merge_style el r) = cls el"
  by (simp_all add: merge_style_def set_attr_def Let_def)

lemma apply_color_fields [simp]:
  "name (apply_color k el) = name el" "cls (apply_color k el) = cls el"
  by (simp_all add: apply_color_def split: option.splits)

lemma token_effect_fields [simp]:
  "name (token_effect c el) = name el" "cls (token_effect c el) = cls el"
  by (simp_all add: token_effect_def split: option.splits)

lemma merge_style_cls_update: "merge_style (el\<lparr>cls := x\<rparr>) r = (merge_style el r)\<lparr>cls := x\<rparr>"
  by (simp add: merge_style_def set_attr_def get_style_def Let_def)

lemma apply_color_cls_update: "apply_color k (el\<lparr>cls := x\<rparr>) = (apply_color k el)\<lparr>cls := x\<rparr>"
  by (simp add: apply_color_def merge_style_cls_update split: option.splits)

lemma token_effect_cls_update: "token_effect c (el\<lparr>cls := x\<rparr>) = (token_effect c el)\<lparr>cls := x\<rparr>"
  by (simp add: token_effect_def apply_color_cls_update split: option.splits)

lemma fold_token_effect_cls_update:
  "fold token_effect cs (el\<lparr>cls := x\<rparr>) = (fold token_effect cs el)\<lparr>cls := x\<rparr>"
  by (induction cs arbitrary: el) (simp_all add: token_effect_cls_update)

lemma fold_token_effect_fields [simp]:
  "name (fold token_effect cs el) = name el" "cls (fold token_effect cs el) = cls el"
  by (induction cs arbitrary: el) simp_all

lemma filter_remove1_out: "\<not> P x \<Longrightarrow> filter P (remove1 x xs) = filter P xs"
  by (induction xs) auto

lemma filter_remove1_in: "P x \<Longrightarrow> filter P (remove1 x xs) = remove1 x (filter P xs)"
  by (induction xs) auto

lemma color_loop_eq:
  "cls el = Some l \<Longrightarrow> mset (filter is_color cs) = mset (filter is_color l) \<Longrightarrow>
   color_loop cs el = Inr ((fold token_effect cs el)\<lparr>cls := Some (filter (\<lambda>c. \<not> is_color c) l)\<rparr>)"
proof (induction cs arbitrary: el l)
  case Nil
  then have "filter is_color l = []" by simp
  then have "filter (\<lambda>c. \<not> is_color c) l = l"
    by (simp add: filter_empty_conv)
  with Nil show ?case by simp
next
  case (Cons c cs)
  show ?case
  proof (cases "color_key c")
    case None
    then have nc: "\<not> is_color c" by (simp add: is_color_def)
    with Cons.prems have "mset (filter is_color cs) = mset (filter is_color l)" by simp
    moreover have "token_effect c el = el" using None by (simp add: token_effect_def)
    ultimately show ?thesis using Cons.IH [OF Cons.prems(1)] None by simp
  next
    case (Some key)
    then have ic: "is_color c" by (simp add: is_color_def)
    let ?el1 = "apply_color key el"
    from ic Cons.prems(2) have "c \<in># mset (filter is_color l)"
      by (metis filter.simps(2) mset.simps(2) union_single_eq_member)
    then have mem: "c \<in> set l" by simp
    let ?l' = "remove1 c l"
    have m': "mset (filter is_color cs) = mset (filter is_color ?l')"
    proof -
      from ic Cons.prems(2)
      have "add_mset c (mset (filter is_color cs)) = mset (filter is_color l)" by simp
      then have "mset (filter is_color cs) = mset (filter is_color l) - {#c#}"
        by (metis add_mset_remove_trivial)
      then show ?thesis using ic by (simp add: filter_remove1_in)
    qed
    have c1: "cls (?el1\<lparr>cls := Some ?l'\<rparr>) = Some ?l'" by simp
    have f: "filter (\<lambda>c. \<not> is_color c) ?l' = filter (\<lambda>c. \<not> is_color c) l"
      using ic by (simp add: filter_remove1_out)
    have te: "token_effect c el = ?el1" using Some by (simp add: token_effect_def)
    from Cons.IH [OF c1 m'] Some mem Cons.prems(1) f show ?thesis
      by (simp add: list_remove_def class_list_def te fold_token_effect_cls_update)
  qed
qed

lemma convert_color_classes_total:
  "convert_color_classes_to_inline el = Inr (resolve el)"
proof (cases "cls el")
  case None
  then show ?thesis by (simp add: convert_color_classes_to_inline_def resolve_def)
next
  case (Some l)
  from color_loop_eq [OF Some refl]
  show ?thesis using Some
    by (simp add: convert_color_classes_to_inline_def resolve_def Let_def)
qed

lemma resolve_class_list: "class_list (resolve el) = filter (\<lambda>c. \<not> is_color c) (class_list el)"
  by (auto simp: resolve_def class_list_def Let_def split: option.splits)

lemma fold_token_effect_none:
  "list_all (\<lambda>c. color_key c = None) cs \<Longrightarrow> fold token_effect cs el = el"
  by (induction cs) (simp_all add: token_effect_def)

lemma resolve_attrs: "attrs (resolve el) = attrs (fold token_effect (class_list el) el)"
  by (simp add: resolve_def class_list_def Let_def split: option.splits)

lemma resolve_name: "name (resolve el) = name el"
  by (simp add: resolve_def Let_def split: option.splits)

lemma resolve_idem: "resolve (resolve el) = resolve el"
proof (cases "cls (resolve el)")
  case None
  then show ?thesis by (simp add: resolve_def [of "resolve el"])
next
  case (Some l)
  then have l: "l = filter (\<lambda>c. \<not> is_color c) (class_list el)"
    using resolve_class_list [of el] by (simp add: class_list_def)
  then have "list_all (\<lambda>c. color_key c = None) l"
    by (simp add: list_all_iff is_color_def)
  then have f: "fold token_effect l (resolve el) = resolve el"
    by (rule fold_token_effect_none)
  have g: "filter (\<lambda>c. \<not> is_color c) l = l" using l by simp
  show ?thesis
    using Some f g by (simp add: resolve_def [of "resolve el"] Let_def)
qed

lemma key_of_plain: "key \<noteq> [] \<Longrightarrow> list_all is_key_char key \<Longrightarrow> key_of key = Some key"
proof -
  assume a: "key \<noteq> []" "list_all is_key_char key"
  then have "is_key_char (last key)" by (simp add: list_all_iff)
  then have "last key \<noteq> CHR 0x0A" by (auto simp: is_key_char_def)
  with a show ?thesis by (simp add: key_of_def)
qed

lemma color_key_marker:
  assumes "p = ''highlight'' \<or> p = ''block-color''" "key \<noteq> []" "list_all is_key_char key"
  shows "color_key (p @ ''-'' @ key) = Some key"
  using assms by (auto simp: color_key_def key_of_plain)

lemma color_table_nonempty: "map_of CSS_COLOR_MAP key = Some col \<Longrightarrow> col \<noteq> []"
  by (auto simp: CSS_COLOR_MAP_def split: if_splits)

text \<open>
  C5. For every element the Color-Class Resolver returns (it raises nothing), the element
  it returns has no class token that the resolver recognises, and the resolver applied to
  that element returns it unchanged: class list and style stay as they are.
\<close>

theorem color_class_resolver_idempotent:
  "\<exists>el'. convert_color_classes_to_inline el = Inr el' \<and>
         list_all (\<lambda>c. color_key c = None) (class_list el') \<and>
         convert_color_classes_to_inline el' = Inr el'"
proof -
  have "list_all (\<lambda>c. color_key c = None) (class_list (resolve el))"
    by (simp add: resolve_class_list list_all_iff is_color_def)
  moreover have "convert_color_classes_to_inline (resolve el) = Inr (resolve el)"
    by (simp add: convert_color_classes_total resolve_idem)
  ultimately show ?thesis by (simp add: convert_color_classes_total)
qed

text \<open>
  C4, as amended. A class token \<open>highlight-<key>\<close> or \<open>block-color-<key>\<close> is
  recognised when the key is a non-empty string of lowercase letters and underscores
  (digits are not part of a key). For every element whose class list holds such a token,
  the resolver returns an element without it; the name is kept, and the attributes are
  those left by the tokens' style steps taken in the order of the class list, where the
  step of this token changes nothing when the key ends in \<open>_background\<close> or is not in the
  color table, and merges \<open>color:<value>\<close> otherwise.
\<close>

theorem color_class_resolver_tokens:
  assumes "p = ''highlight'' \<or> p = ''block-color''"
    and "key \<noteq> []" and "list_all is_key_char key"
    and "p @ ''-'' @ key \<in> set (class_list el)"
  shows "\<exists>el'. convert_color_classes_to_inline el = Inr el' \<and>
           p @ ''-'' @ key \<notin> set (class_list el') \<and>
           name el' = name el \<and>
           attrs el' = attrs (fold token_effect (class_list el) el) \<and>
           token_effect (p @ ''-'' @ key) e =
             (if suffix ''_background'' key then e
              else case map_of CSS_COLOR_MAP key of
                     None \<Rightarrow> e
                   | Some col \<Rightarrow> merge_style e (''color:'' @ col))"
proof -
  have k: "color_key (p @ ''-'' @ key) = Some key"
    using assms(1-3) by (rule color_key_marker)
  then have "is_color (p @ ''-'' @ key)" by (simp add: is_color_def)
  then have "p @ ''-'' @ key \<notin> set (class_list (resolve el))"
    by (simp add: resolve_class_list)
  moreover have "token_effect (p @ ''-'' @ key) e =
             (if suffix ''_background'' key then e
              else case map_of CSS_COLOR_MAP key of
                     None \<Rightarrow> e
                   | Some col \<Rightarrow> merge_style e (''color:'' @ col))"
    using k by (auto simp: token_effect_def apply_color_def color_table_nonempty split: option.splits)
  ultimately show ?thesis
    by (simp add: convert_color_classes_total resolve_attrs resolve_name)
qed

text \<open>
  C4, witness: a span with the classes \<open>highlight-red\<close>, \<open>note\<close> and
  \<open>block-color-blue_background\<close>.
\<close>

theorem color_class_resolver_tokens_witness:
  "\<exists>el'. convert_color_classes_to_inline
            \<lparr>ident = 1, name = ''span'',
               cls = Some [''highlight-red'', ''note'', ''block-color-blue_background''],
               attrs = []\<rparr> = Inr el' \<and>
         ''highlight-red'' \<notin> set (class_list el') \<and>
         attrs el' = [(''style'', ''color:red'')]"
proof -
  let ?el = "\<lparr>ident = 1, name = ''span'',
               cls = Some [''highlight-red'', ''note'', ''block-color-blue_background''],
               attrs = []\<rparr>"
  have h: "''highlight'' = ''highlight'' \<or> ''highlight'' = ''block-color''"
    "''red'' \<noteq> []" "list_all is_key_char ''red''"
    "''highlight'' @ ''-'' @ ''red'' \<in> set (class_list ?el)"
    by (simp_all add: is_key_char_def class_list_def)
  have "attrs (fold token_effect (class_list ?el) ?el) = [(''style'', ''color:red'')]"
    by (simp add: is_key_char_def class_list_def token_effect_def color_key_def key_of_def
      apply_color_def CSS_COLOR_MAP_def merge_style_def get_style_def set_attr_def strip_def
      strip_chars_def lstrip_chars_def rstrip_chars_def suffix_to_prefix)
  with color_class_resolver_tokens [OF h] show ?thesis by auto
qed

text \<open>
  C4, counterexample to the claim as stated (a key may be alphanumeric): the key of
  \<open>highlight-gray2\<close> is lowercase and alphanumeric, and the resolver leaves the token
  in the class list.
\<close>

theorem color_class_resolver_digit_counterexample:
  "convert_color_classes_to_inline \<lparr>ident = 1, name = ''span'', cls = Some [''highlight-gray2''], attrs = []\<rparr>
     = Inr \<lparr>ident = 1, name = ''span'', cls = Some [''highlight-gray2''], attrs = []\<rparr>"
  by (simp add: convert_color_classes_to_inline_def color_key_def key_of_def is_key_char_def)

section \<open>The passes over the tree\<close>

lemma for_each_total:
  "(\<And>e. f e = Inr (g e)) \<Longrightarrow>
     for_each p f n = Inr (map_elems (\<lambda>e. if p e then g e else e) n)"
  "(\<And>e. f e = Inr (g e)) \<Longrightarrow>
     for_each_list p f ns = Inr (map (map_elems (\<lambda>e. if p e then g e else e)) ns)"
  by (induction p f n and p f ns rule: for_each_for_each_list.induct) auto

lemma sanitize_tree_total:
  "sanitize_tree contents =
     Inr (map (map_elems strip_style)
            (concat (map unwrap_node
               (map (map_elems clean_anchor)
                  (map (map_elems span_step) (map (map_elems mark_step) contents))))))"
proof -
  have m: "for_each_list (named ''mark'') mark_to_span contents
             = Inr (map (map_elems mark_step) contents)"
    using for_each_total(2) [of mark_to_span "\<lambda>e. resolve (e\<lparr>name := ''span''\<rparr>)" "named ''mark''" contents]
    by (simp add: mark_to_span_def convert_color_classes_total mark_step_def [abs_def])
  have s: "for_each_list (named ''span'') convert_color_classes_to_inline c
             = Inr (map (map_elems span_step) c)" for c
    using for_each_total(2) [of convert_color_classes_to_inline resolve "named ''span''" c]
    by (simp add: convert_color_classes_total span_step_def [abs_def])
  show ?thesis by (simp add: sanitize_tree_def m s)
qed

lemma elems_map_elems: "elems (map_elems f n) = map f (elems n)"
  by (induction n) (simp_all add: map_concat comp_def cong: map_cong)

lemma elems_list_map_elems: "elems_list (map (map_elems f) ns) = map f (elems_list ns)"
  by (simp add: elems_list_def map_concat comp_def elems_map_elems)

lemma elems_list_append: "elems_list (xs @ ys) = elems_list xs @ elems_list ys"
  by (simp add: elems_list_def)

lemma elems_list_Cons: "elems_list (n # ns) = elems n @ elems_list ns"
  by (simp add: elems_list_def)

lemma elems_list_concat: "elems_list (concat xss) = concat (map elems_list xss)"
  by (induction xss) (simp_all add: elems_list_append elems_list_def)

lemma elems_unwrap:
  "elems_list (unwrap_node n) = filter (\<lambda>e. name e \<in> set ALLOWED_TAGS) (elems n)"
proof (induction n)
  case (Text s)
  show ?case by (simp add: elems_list_def)
next
  case (Other s)
  show ?case by (simp add: elems_list_def)
next
  case (Element e ch)
  have "elems_list (concat (map unwrap_node ch))
          = filter (\<lambda>e. name e \<in> set ALLOWED_TAGS) (concat (map elems ch))"
    using Element.IH
    by (simp add: elems_list_concat filter_concat comp_def cong: map_cong)
  then show ?case by (simp add: elems_list_def)
qed

lemma elems_list_unwrap:
  "elems_list (concat (map unwrap_node ns))
     = filter (\<lambda>e. name e \<in> set ALLOWED_TAGS) (elems_list ns)"
proof (induction ns)
  case Nil
  show ?case by (simp add: elems_list_def)
next
  case (Cons n ns)
  then show ?case by (simp add: elems_list_append elems_list_Cons elems_unwrap)
qed

lemma sanitize_tree_elems:
  "\<exists>out. sanitize_tree contents = Inr out \<and>
     elems_list out =
       map strip_style (filter (\<lambda>e. name e \<in> set ALLOWED_TAGS)
         (map clean_anchor (map span_step (map mark_step (elems_list contents)))))"
proof -
  let ?c2 = "map (map_elems clean_anchor)
               (map (map_elems span_step) (map (map_elems mark_step) contents))"
  have "elems_list ?c2 = map clean_anchor (map span_step (map mark_step (elems_list contents)))"
    by (simp only: elems_list_map_elems)
  then have "elems_list (map (map_elems strip_style) (concat (map unwrap_node ?c2))) =
       map strip_style (filter (\<lambda>e. name e \<in> set ALLOWED_TAGS)
         (map clean_anchor (map span_step (map mark_step (elems_list contents)))))"
    by (simp only: elems_list_map_elems elems_list_unwrap)
  then show ?thesis by (simp only: sanitize_tree_total sum.inject simp_thms ex_simps)
qed

lemma strip_style_name [simp]: "name (strip_style e) = name e"
  by (simp add: strip_style_def set_attr_def split: option.splits)

lemma clean_anchor_name [simp]: "name (clean_anchor e) = name e"
  by (simp add: clean_anchor_def split: option.splits)

lemma span_step_name [simp]: "name (span_step e) = name e"
  by (simp add: span_step_def resolve_name)

lemma mark_step_a: "name e = ''a'' \<Longrightarrow> mark_step e = e"
  by (simp add: mark_step_def named_def)

lemma mark_step_not_a: "name e \<noteq> ''a'' \<Longrightarrow> name (mark_step e) \<noteq> ''a''"
  by (simp add: mark_step_def named_def resolve_name)

lemma span_step_a: "name e = ''a'' \<Longrightarrow> span_step e = e"
  by (simp add: span_step_def named_def)

lemma clean_anchor_a: "name e = ''a'' \<Longrightarrow> clean_anchor e = href_only e"
  by (cases e) (simp add: clean_anchor_def href_only_def split: option.splits)

lemma strip_style_href_only: "strip_style (href_only e) = href_only e"
  by (simp add: strip_style_def href_only_def split: option.splits)

lemma a_allowed: "''a'' \<in> set ALLOWED_TAGS"
  by (simp add: ALLOWED_TAGS_def)

lemma links_pipeline:
  "filter (named ''a'')
     (map strip_style (filter (\<lambda>e. name e \<in> set ALLOWED_TAGS)
        (map clean_anchor (map span_step (map mark_step es)))))
   = map href_only (filter (named ''a'') es)"
proof (induction es)
  case Nil
  show ?case by simp
next
  case (Cons e es)
  show ?case
  proof (cases "name e = ''a''")
    case True
    then have "clean_anchor (span_step (mark_step e)) = href_only e"
      by (simp add: mark_step_a span_step_a clean_anchor_a)
    moreover have "name (href_only e) = ''a''" by (simp add: href_only_def)
    ultimately show ?thesis
      using True Cons.IH by (simp add: named_def a_allowed strip_style_href_only)
  next
    case False
    then have "name (clean_anchor (span_step (mark_step e))) \<noteq> ''a''"
      by (simp add: mark_step_not_a)
    then show ?thesis
      using False Cons.IH by (simp add: named_def)
  qed
qed

text \<open>
  C9, as amended. Rich-mode sanitization always returns, and the links of the sanitized
  tree are, in document order, the links of the cell, each reduced to its \<open>href\<close>: a link
  with a non-empty \<open>href\<close> keeps that attribute alone, with the value unchanged; a link
  with no \<open>href\<close> or with an empty one is left with no attribute. The class list and every
  other attribute, a style with a background-color declaration included, are gone.
\<close>

theorem anchors_keep_only_href:
  "\<exists>out. sanitize_tree contents = Inr out \<and> links out = map href_only (links contents)"
proof -
  from sanitize_tree_elems [of contents] obtain out where
    o: "sanitize_tree contents = Inr out" and
    e: "elems_list out =
       map strip_style (filter (\<lambda>e. name e \<in> set ALLOWED_TAGS)
         (map clean_anchor (map span_step (map mark_step (elems_list contents)))))"
    by blast
  have "links out = map href_only (links contents)"
    unfolding links_def e by (rule links_pipeline)
  with o show ?thesis by blast
qed

text \<open>
  C9, witness: a link with a class, a style that sets a background color, an \<open>href\<close> and a
  \<open>target\<close>.
\<close>

theorem anchors_keep_only_href_witness:
  "\<exists>out. sanitize_tree
     [Element \<lparr>ident = 1, name = ''a'', cls = Some [''ref''],
               attrs = [(''style'', ''background-color:red''), (''href'', ''https://x.org/''),
                        (''target'', ''_blank'')]\<rparr> [Text ''t'']] = Inr out \<and>
     links out = [\<lparr>ident = 1, name = ''a'', cls = None, attrs = [(''href'', ''https://x.org/'')]\<rparr>]"
  using anchors_keep_only_href
    [of "[Element \<lparr>ident = 1, name = ''a'', cls = Some [''ref''],
               attrs = [(''style'', ''background-color:red''), (''href'', ''https://x.org/''),
                        (''target'', ''_blank'')]\<rparr> [Text ''t'']]"]
  by (simp add: links_def elems_list_def named_def href_only_def)

text \<open>
  C9, counterexample to the claim as stated (a link that has an \<open>href\<close> attribute keeps it):
  a link whose \<open>href\<close> is the empty string is left with no attribute.
\<close>

theorem anchor_empty_href_counterexample:
  "sanitize_tree
     [Element \<lparr>ident = 1, name = ''a'', cls = Some [''ref''],
               attrs = [(''href'', []), (''style'', ''background-color:red'')]\<rparr> [Text ''t'']]
   = Inr [Element \<lparr>ident = 1, name = ''a'', cls = None, attrs = []\<rparr> [Text ''t'']]"
  by (simp add: sanitize_tree_def named_def clean_anchor_def ALLOWED_TAGS_def strip_style_def)

lemma map_elems_cong_elems:
  "(\<And>e. e \<in> set (elems n) \<Longrightarrow> f e = g e) \<Longrightarrow> map_elems f n = map_elems g n"
  by (induction n) (auto cong: map_cong)

lemma map_elems_ident: "(\<And>e. e \<in> set (elems n) \<Longrightarrow> f e = e) \<Longrightarrow> map_elems f n = n"
  by (induction n) (auto intro!: map_idI)

lemma map_map_elems_cong:
  "(\<And>e. e \<in> set (elems_list ns) \<Longrightarrow> f e = g e) \<Longrightarrow>
     map (map_elems f) ns = map (map_elems g) ns"
  by (rule map_cong [OF refl], rule map_elems_cong_elems) (auto simp: elems_list_def)

lemma map_map_elems_ident:
  "(\<And>e. e \<in> set (elems_list ns) \<Longrightarrow> f e = e) \<Longrightarrow> map (map_elems f) ns = ns"
  by (rule map_idI, rule map_elems_ident) (auto simp: elems_list_def)

lemma concat_singletons: "concat (map (\<lambda>n. [n]) ns) = ns"
  by (induction ns) simp_all

lemma unwrap_allowed:
  "(\<And>e. e \<in> set (elems n) \<Longrightarrow> name e \<in> set ALLOWED_TAGS) \<Longrightarrow> unwrap_node n = [n]"
proof (induction n)
  case (Text s)
  show ?case by simp
next
  case (Other s)
  show ?case by simp
next
  case (Element e ch)
  have "map unwrap_node ch = map (\<lambda>n. [n]) ch"
    using Element by (intro map_cong [OF refl]) auto
  then have "concat (map unwrap_node ch) = ch" by (simp only: concat_singletons)
  moreover have "name e \<in> set ALLOWED_TAGS" using Element.prems by simp
  ultimately show ?case by simp
qed

lemma unwrap_list_allowed:
  "(\<And>e. e \<in> set (elems_list ns) \<Longrightarrow> name e \<in> set ALLOWED_TAGS) \<Longrightarrow>
     concat (map unwrap_node ns) = ns"
proof -
  assume a: "\<And>e. e \<in> set (elems_list ns) \<Longrightarrow> name e \<in> set ALLOWED_TAGS"
  have "map unwrap_node ns = map (\<lambda>n. [n]) ns"
    by (intro map_cong [OF refl] unwrap_allowed a) (auto simp: elems_list_def)
  then show ?thesis by (simp only: concat_singletons)
qed

lemma resolve_no_color:
  "list_all (\<lambda>c. color_key c = None) (class_list e) \<Longrightarrow> resolve e = e"
proof -
  assume a: "list_all (\<lambda>c. color_key c = None) (class_list e)"
  then have f: "filter (\<lambda>c. \<not> is_color c) (class_list e) = class_list e"
    by (simp add: list_all_iff is_color_def)
  from a have "fold token_effect (class_list e) e = e" by (rule fold_token_effect_none)
  with f show ?thesis
    by (cases "cls e") (auto simp: resolve_def class_list_def Let_def)
qed

lemma plain_mark_step: "plain_elem e \<Longrightarrow> mark_step e = e"
  by (auto simp: plain_elem_def mark_step_def named_def ALLOWED_TAGS_def)

lemma plain_span_step: "plain_elem e \<Longrightarrow> span_step e = e"
  by (simp add: plain_elem_def span_step_def resolve_no_color)

lemma plain_clean_anchor: "plain_elem e \<Longrightarrow> clean_anchor e = e"
  by (simp add: plain_elem_def clean_anchor_def)

lemma sanitize_tree_plain:
  assumes "list_all plain_elem (elems_list contents)"
  shows "sanitize_tree contents = Inr (map (map_elems strip_style) contents)"
proof -
  have p: "\<And>e. e \<in> set (elems_list contents) \<Longrightarrow> plain_elem e"
    using assms by (simp add: list_all_iff)
  have 1: "map (map_elems mark_step) contents = contents"
    by (rule map_map_elems_ident) (simp add: p plain_mark_step)
  have 2: "map (map_elems span_step) contents = contents"
    by (rule map_map_elems_ident) (simp add: p plain_span_step)
  have 3: "map (map_elems clean_anchor) contents = contents"
    by (rule map_map_elems_ident) (simp add: p plain_clean_anchor)
  have 4: "concat (map unwrap_node contents) = contents"
    by (rule unwrap_list_allowed) (use p in \<open>simp add: plain_elem_def\<close>)
  show ?thesis by (simp only: sanitize_tree_total 1 2 3 4)
qed

lemma join_filter_empty: "join sep (filter P []) = []"
  by simp

lemma strip_background_bg_only: "bg_only style \<Longrightarrow> strip_background style = []"
proof -
  assume "bg_only style"
  then have "filter (\<lambda>s. strip s \<noteq> []) (filter (\<lambda>s. \<not> is_background s) (split_char (CHR '';'') style)) = []"
    by (auto simp: bg_only_def list_all_iff filter_empty_conv)
  then show ?thesis by (simp add: strip_background_def)
qed

lemma strip_style_bg_only: "bg_only (get_style e) \<Longrightarrow> strip_style e = blank_style e"
  by (auto simp: strip_style_def blank_style_def get_style_def strip_background_bg_only
      split: option.splits)

lemma strip_style_keys: "map fst (attrs (strip_style e)) = map fst (attrs e)"
proof (cases "map_of (attrs e) ''style''")
  case None
  then show ?thesis by (simp add: strip_style_def)
next
  case (Some s)
  then have "''style'' \<in> fst ` set (attrs e)"
    by (metis domI dom_map_of_conv_image_fst)
  then show ?thesis using Some by (simp add: strip_style_def set_attr_def update_keys)
qed

text \<open>
  C3, as amended. The background pass never drops a style attribute: the keys of a tag's
  attributes are the same after it, and a tag whose style holds only background-color
  declarations (and blank ones) keeps the attribute with the empty string as its value.
  For a cell made of allowed tags other than links, without color-marker classes, whose
  styles hold only background-color declarations, rich-mode sanitization returns the same
  tree with every style attribute set to the empty string.
\<close>

theorem empty_style_is_kept:
  "map fst (attrs (strip_style e)) = map fst (attrs e) \<and>
   (bg_only (get_style e) \<longrightarrow> strip_style e = blank_style e) \<and>
   (list_all plain_elem (elems_list contents) \<and>
    list_all (\<lambda>e. bg_only (get_style e)) (elems_list contents) \<longrightarrow>
      sanitize_tree contents = Inr (map (map_elems blank_style) contents))"
proof (intro conjI impI)
  show "map fst (attrs (strip_style e)) = map fst (attrs e)"
    by (rule strip_style_keys)
next
  assume "bg_only (get_style e)"
  then show "strip_style e = blank_style e" by (rule strip_style_bg_only)
next
  assume a: "list_all plain_elem (elems_list contents) \<and>
    list_all (\<lambda>e. bg_only (get_style e)) (elems_list contents)"
  have "map (map_elems strip_style) contents = map (map_elems blank_style) contents"
    by (rule map_map_elems_cong) (use a in \<open>simp add: list_all_iff strip_style_bg_only\<close>)
  with sanitize_tree_plain [of contents] a
  show "sanitize_tree contents = Inr (map (map_elems blank_style) contents)" by simp
qed

text \<open>
  C3, witness: a \<open>div\<close> with the style \<open>background-color: yellow;\<close> around a span with
  the style \<open>background-color:red\<close>.
\<close>

theorem empty_style_is_kept_witness:
  "sanitize_tree
     [Element \<lparr>ident = 1, name = ''div'', cls = None,
               attrs = [(''style'', ''background-color: yellow;'')]\<rparr>
        [Element \<lparr>ident = 2, name = ''span'', cls = Some [''note''],
                  attrs = [(''style'', ''background-color:red'')]\<rparr> [Text ''x''],
         Text ''y'']]
   = Inr [Element \<lparr>ident = 1, name = ''div'', cls = None, attrs = [(''style'', [])]\<rparr>
            [Element \<lparr>ident = 2, name = ''span'', cls = Some [''note''], attrs = [(''style'', [])]\<rparr>
               [Text ''x''],
             Text ''y'']]"
  using empty_style_is_kept
    [of "\<lparr>ident = 2, name = ''span'', cls = None, attrs = []\<rparr>"
        "[Element \<lparr>ident = 1, name = ''div'', cls = None,
               attrs = [(''style'', ''background-color: yellow;'')]\<rparr>
        [Element \<lparr>ident = 2, name = ''span'', cls = Some [''note''],
                  attrs = [(''style'', ''background-color:red'')]\<rparr> [Text ''x''],
         Text ''y'']]"]
  by (simp add: elems_list_def plain_elem_def ALLOWED_TAGS_def class_list_def color_key_def
      bg_only_def get_style_def is_background_def strip_def strip_chars_def lstrip_chars_def
      rstrip_chars_def isspace_def blank_style_def set_attr_def)

text \<open>
  C3, counterexample to the claim as stated (the tag carries no style attribute after
  sanitization): a span whose only styling is \<open>background-color:yellow\<close> comes out with
  the style attribute present and empty.
\<close>

theorem empty_style_counterexample:
  "sanitize_tree
     [Element \<lparr>ident = 1, name = ''span'', cls = None,
               attrs = [(''style'', ''background-color:yellow'')]\<rparr> [Text ''x'']]
   = Inr [Element \<lparr>ident = 1, name = ''span'', cls = None, attrs = [(''style'', [])]\<rparr> [Text ''x'']]"
  by (simp add: sanitize_tree_def named_def clean_anchor_def ALLOWED_TAGS_def strip_style_def
      convert_color_classes_to_inline_def strip_background_def is_background_def strip_def
      strip_chars_def lstrip_chars_def rstrip_chars_def isspace_def set_attr_def)

section \<open>Plain-text mode\<close>

lemma rstrip_chars_last: "rstrip_chars p s \<noteq> [] \<Longrightarrow> \<not> p (last (rstrip_chars p s))"
proof -
  assume a: "rstrip_chars p s \<noteq> []"
  then have "dropWhile p (rev s) \<noteq> []" by (simp add: rstrip_chars_def)
  then have "\<not> p (hd (dropWhile p (rev s)))" by (rule hd_dropWhile)
  moreover have "last (rstrip_chars p s) = hd (dropWhile p (rev s))"
    using a by (simp add: rstrip_chars_def last_rev)
  ultimately show ?thesis by simp
qed

lemma strip_chars_last: "strip_chars p s \<noteq> [] \<Longrightarrow> \<not> p (last (strip_chars p s))"
  by (simp add: strip_chars_def rstrip_chars_last)

lemma strip_chars_idem: "strip_chars p (strip_chars p s) = strip_chars p s"
proof (cases "strip_chars p s = []")
  case True
  show ?thesis unfolding True by (simp add: strip_chars_def lstrip_chars_def rstrip_chars_def)
next
  case False
  then show ?thesis by (simp add: strip_chars_id strip_chars_hd strip_chars_last)
qed

lemma join_nonempty_hd:
  "xs \<noteq> [] \<Longrightarrow> hd xs \<noteq> [] \<Longrightarrow> join sep xs \<noteq> [] \<and> hd (join sep xs) = hd (hd xs)"
  by (cases "(sep, xs)" rule: join.cases) auto

lemma join_nonempty: "xs \<noteq> [] \<Longrightarrow> last xs \<noteq> [] \<Longrightarrow> join sep xs \<noteq> []"
  by (induction sep xs rule: join.induct) auto

lemma join_nonempty_last:
  "xs \<noteq> [] \<Longrightarrow> last xs \<noteq> [] \<Longrightarrow> last (join sep xs) = last (last xs)"
proof (induction sep xs rule: join.induct)
  case (3 sep x y ys)
  then have "join sep (y # ys) \<noteq> []" by (intro join_nonempty) auto
  with 3 show ?case by simp
qed auto

lemma get_text_stripped: "strip (get_text sep t) = get_text sep t"
proof -
  let ?xs = "filter (\<lambda>s. s \<noteq> []) (map strip (concat (map all_strings (snd t))))"
  show ?thesis
  proof (cases "?xs = []")
    case True
    then show ?thesis
      by (simp add: get_text_def strip_def strip_chars_def lstrip_chars_def rstrip_chars_def)
  next
    case False
    have all: "\<And>x. x \<in> set ?xs \<Longrightarrow> x \<noteq> [] \<and> \<not> isspace (hd x) \<and> \<not> isspace (last x)"
      using strip_chars_hd [of isspace] strip_chars_last [of isspace]
      by (auto simp: strip_def)
    from False have h: "hd ?xs \<in> set ?xs" and l: "last ?xs \<in> set ?xs"
      by (rule hd_in_set, rule last_in_set)
    from all [OF h] all [OF l] False
    have "join sep ?xs \<noteq> []" "\<not> isspace (hd (join sep ?xs))" "\<not> isspace (last (join sep ?xs))"
      using join_nonempty_hd [of ?xs sep] join_nonempty_last [of ?xs sep] by auto
    then show ?thesis
      unfolding get_text_def strip_def by (rule strip_chars_id)
  qed
qed

lemma get_text_pieces: "get_text sep t = join sep (pieces (snd t))"
  by (simp add: get_text_def pieces_def)

lemma pieces_nonempty: "p \<in> set (pieces ns) \<Longrightarrow> p \<noteq> []"
  by (simp add: pieces_def)

lemma join_empty_iff: "(\<And>p. p \<in> set ps \<Longrightarrow> p \<noteq> []) \<Longrightarrow> join sep ps = [] \<longleftrightarrow> ps = []"
  by (cases "(sep, ps)" rule: join.cases) auto

lemma get_text_empty_iff: "get_text sep t = [] \<longleftrightarrow> pieces (snd t) = []"
  by (simp add: get_text_pieces join_empty_iff pieces_nonempty)

lemma join_Cons: "join sep (x # ps) = (if ps = [] then x else x @ sep @ join sep ps)"
  by (cases ps) simp_all

lemma pieces_Text:
  "pieces (Text s # ns) = (if strip s = [] then pieces ns else strip s # pieces ns)"
  by (simp add: pieces_def)

lemma pieces_Other: "pieces (Other s # ns) = pieces ns"
  by (simp add: pieces_def)

lemma pieces_Element: "pieces (Element e ch # ns) = pieces (ch @ ns)"
  by (simp add: pieces_def)

lemma all_strings_map_elems: "all_strings (map_elems f n) = all_strings n"
  by (induction n) (simp_all add: comp_def cong: map_cong)

lemma all_strings_unwrap: "concat (map all_strings (unwrap_node n)) = all_strings n"
proof (induction n)
  case (Element e ch)
  have "concat (map all_strings (concat (map unwrap_node ch))) = concat (map all_strings ch)"
    using Element.IH by (induction ch) simp_all
  then show ?case by simp
qed simp_all

lemma strings_map_elems:
  "concat (map all_strings (map (map_elems f) ns)) = concat (map all_strings ns)"
  by (simp add: comp_def all_strings_map_elems)

lemma strings_unwrap:
  "concat (map all_strings (concat (map unwrap_node ns))) = concat (map all_strings ns)"
  by (induction ns) (simp_all add: all_strings_unwrap)

lemma sanitize_tree_strings:
  "\<exists>out. sanitize_tree contents = Inr out \<and>
     concat (map all_strings out) = concat (map all_strings contents)"
  by (simp only: sanitize_tree_total sum.inject ex_simps simp_thms strings_map_elems strings_unwrap)

text \<open>
  C10. For every cell, sanitizing in plain-text mode returns the cell as it was (the name,
  class list, attributes and children of every tag) together with its visible text, so
  that a rich-mode pass after it gives what it gives on the cell as it was. The visible
  text has no whitespace at either end and is read off the children from left to right:
  a string of the document gives its stripped text unless that is empty, a string of
  another class (a comment, the content of \<open>script\<close>, \<open>style\<close> or \<open>template\<close>) gives
  nothing, a tag gives what its children give, and the separator stands between two
  texts. \<open>get_text\<close> only reads the tree; the rich-mode pass changes tags, never strings,
  so the visible text of the cell it leaves is that of the cell it was given. In this
  program \<open>get_text\<close> is called on \<open>td\<close> and \<open>th\<close> tags only.
\<close>

theorem plain_text_mode_leaves_cell:
  "sanitize_inline_html parse decode cell True = Inr (cell, get_text '' '' cell) \<and>
   strip (get_text sep cell) = get_text sep cell \<and>
   get_text sep (e, []) = [] \<and>
   get_text sep (e, Text s # ns) =
     (if strip s = [] then get_text sep (e, ns)
      else if get_text sep (e, ns) = [] then strip s
      else strip s @ sep @ get_text sep (e, ns)) \<and>
   get_text sep (e, Other s # ns) = get_text sep (e, ns) \<and>
   get_text sep (e, Element e' ch # ns) = get_text sep (e, ch @ ns) \<and>
   (\<exists>cell' out. sanitize_inline_html parse decode cell False = Inr (cell', out) \<and>
      get_text sep cell' = get_text sep cell) \<and>
   (case sanitize_inline_html parse decode cell True of
      Inl x \<Rightarrow> False
    | Inr (cell', out) \<Rightarrow>
        sanitize_inline_html parse decode cell' False
          = sanitize_inline_html parse decode cell False)"
proof (intro conjI)
  show "case sanitize_inline_html parse decode cell True of
      Inl x \<Rightarrow> False
    | Inr (cell', out) \<Rightarrow>
        sanitize_inline_html parse decode cell' False
          = sanitize_inline_html parse decode cell False"
    by (simp add: sanitize_inline_html_def)
  show "sanitize_inline_html parse decode cell True = Inr (cell, get_text '' '' cell)"
    by (simp add: sanitize_inline_html_def)
  show "strip (get_text sep cell) = get_text sep cell"
    by (rule get_text_stripped)
  show "get_text sep (e, []) = []"
    by (simp add: get_text_def)
  show "get_text sep (e, Text s # ns) =
     (if strip s = [] then get_text sep (e, ns)
      else if get_text sep (e, ns) = [] then strip s
      else strip s @ sep @ get_text sep (e, ns))"
    by (simp add: get_text_empty_iff) (simp add: get_text_pieces pieces_Text join_Cons)
  show "get_text sep (e, Other s # ns) = get_text sep (e, ns)"
    by (simp add: get_text_pieces pieces_Other)
  show "get_text sep (e, Element e' ch # ns) = get_text sep (e, ch @ ns)"
    by (simp add: get_text_pieces pieces_Element)
  from sanitize_tree_strings [of "snd cell"] obtain out where
    o: "sanitize_tree (snd cell) = Inr out"
       "concat (map all_strings out) = concat (map all_strings (snd cell))"
    by blast
  then have "sanitize_inline_html parse decode cell False
               = Inr ((fst cell, out), render parse decode out)"
    by (simp add: sanitize_inline_html_def)
  moreover have "get_text sep (fst cell, out) = get_text sep cell"
    using o(2) by (simp add: get_text_def)
  ultimately show "\<exists>cell' out. sanitize_inline_html parse decode cell False = Inr (cell', out) \<and>
      get_text sep cell' = get_text sep cell"
    by blast
qed

text \<open>
  C10, witness: a cell with padded strings, a \<open>script\<close> and a \<open>style\<close> tag, a bold tag and
  a blank string.
\<close>

theorem plain_text_mode_leaves_cell_witness:
  "sanitize_inline_html (\<lambda>s. []) (\<lambda>ns. [])
     (\<lparr>ident = 1, name = ''td'', cls = None, attrs = []\<rparr>,
      [Text '' a '',
       Element \<lparr>ident = 2, name = ''script'', cls = None, attrs = []\<rparr> [Other ''b''],
       Element \<lparr>ident = 3, name = ''style'', cls = None, attrs = []\<rparr> [Other ''c''],
       Element \<lparr>ident = 4, name = ''b'', cls = None, attrs = []\<rparr> [Text ''d  e''],
       Text ''  '']) True
   = Inr ((\<lparr>ident = 1, name = ''td'', cls = None, attrs = []\<rparr>,
      [Text '' a '',
       Element \<lparr>ident = 2, name = ''script'', cls = None, attrs = []\<rparr> [Other ''b''],
       Element \<lparr>ident = 3, name = ''style'', cls = None, attrs = []\<rparr> [Other ''c''],
       Element \<lparr>ident = 4, name = ''b'', cls = None, attrs = []\<rparr> [Text ''d  e''],
       Text ''  '']), ''a d  e'')"
proof -
  let ?cell = "(\<lparr>ident = 1, name = ''td'', cls = None, attrs = []\<rparr>,
      [Text '' a '',
       Element \<lparr>ident = 2, name = ''script'', cls = None, attrs = []\<rparr> [Other ''b''],
       Element \<lparr>ident = 3, name = ''style'', cls = None, attrs = []\<rparr> [Other ''c''],
       Element \<lparr>ident = 4, name = ''b'', cls = None, attrs = []\<rparr> [Text ''d  e''],
       Text ''  ''])"
  have "get_text '' '' ?cell = ''a d  e''" by code_simp
  with plain_text_mode_leaves_cell [where cell = "?cell" and parse = "\<lambda>s. []" and decode = "\<lambda>ns. []"]
  show ?thesis by simp
qed

section \<open>The Tag Normalizer\<close>

lemma first_seen_snoc:
  "first_seen (xs @ [y]) = (if y \<in> set xs then first_seen xs else first_seen xs @ [y])"
  by (simp add: first_seen_def)

lemma first_seen_distinct: "distinct xs \<Longrightarrow> first_seen xs = xs"
  by (simp add: first_seen_def distinct_remdups_id)

lemma remdups_drop_later: "x \<in> set vs \<Longrightarrow> remdups (us @ x # vs) = remdups (us @ vs)"
  by (induction us) auto

lemma first_seen_drop_later: "x \<in> set a \<Longrightarrow> first_seen (a @ x # b) = first_seen (a @ b)"
  using remdups_drop_later [of x "rev a" "rev b"] by (simp add: first_seen_def)

lemma tags_loop_first_seen:
  "distinct clean \<Longrightarrow>
   tags_loop toks clean (set clean)
     = first_seen (clean @ filter (\<lambda>t. t \<noteq> []) (map clean_token toks))"
proof (induction toks arbitrary: clean)
  case Nil
  then show ?case by (simp add: first_seen_distinct)
next
  case (Cons tok toks)
  let ?t = "clean_token tok"
  show ?case
  proof (cases "?t \<noteq> [] \<and> ?t \<notin> set clean")
    case True
    then have d: "distinct (clean @ [?t])" using Cons.prems by simp
    have "tags_loop (tok # toks) clean (set clean)
            = tags_loop toks (clean @ [?t]) (set (clean @ [?t]))"
      using True by (simp add: Let_def)
    also have "\<dots> = first_seen ((clean @ [?t]) @ filter (\<lambda>t. t \<noteq> []) (map clean_token toks))"
      by (rule Cons.IH [OF d])
    finally show ?thesis using True by simp
  next
    case False
    then have l: "tags_loop (tok # toks) clean (set clean) = tags_loop toks clean (set clean)"
      by (auto simp: Let_def)
    show ?thesis
    proof (cases "?t = []")
      case True
      then show ?thesis using l Cons.IH [OF Cons.prems] by simp
    next
      case ne: False
      with False have "?t \<in> set clean" by simp
      then show ?thesis
        using l Cons.IH [OF Cons.prems] ne by (simp add: first_seen_drop_later)
    qed
  qed
qed

lemma tags_of_text_first_seen:
  "tags_of_text raw = first_seen (filter (\<lambda>t. t \<noteq> []) (map clean_token (tokens_of raw)))"
  using tags_loop_first_seen [of "[]" "tokens_of raw"]
  by (simp add: tags_of_text_def tokens_of_def Let_def)

lemma split_seps_no_sep: "p \<in> set (split_seps s) \<Longrightarrow> c \<in> set p \<Longrightarrow> \<not> is_sep c"
proof (induction s arbitrary: p rule: split_seps.induct)
  case 1
  then show ?case by simp
next
  case (2 d ds)
  show ?case
  proof (cases "is_sep d")
    case True
    with 2 show ?thesis by auto
  next
    case False
    with 2 show ?thesis by (fastforce split: list.splits)
  qed
qed

lemma set_lstrip_chars: "set (lstrip_chars p s) \<subseteq> set s"
  by (auto simp: lstrip_chars_def dest: set_dropWhileD)

lemma set_rstrip_chars: "set (rstrip_chars p s) \<subseteq> set s"
  by (auto simp: rstrip_chars_def dest: set_dropWhileD)

lemma set_strip_chars: "set (strip_chars p s) \<subseteq> set s"
  using set_lstrip_chars [of p s] set_rstrip_chars [of p "lstrip_chars p s"]
  by (auto simp: strip_chars_def)

lemma dash_not_space: "\<not> isspace (CHR ''-'')"
  by (simp add: isspace_def)

lemma set_dash_spaces: "c \<in> set (dash_spaces s) \<Longrightarrow> \<not> isspace c \<and> (c = CHR ''-'' \<or> c \<in> set s)"
proof (induction s rule: dash_spaces.induct)
  case 1
  then show ?case by simp
next
  case (2 d ds)
  then show ?case
    by (auto simp: dash_not_space split: if_splits dest: set_dropWhileD)
qed

lemma clean_token_chars:
  assumes "\<And>c. c \<in> set tok \<Longrightarrow> \<not> is_sep c" and "c \<in> set (clean_token tok)"
  shows "tag_char c"
proof -
  from assms(2) have "c \<in> set (dash_spaces (strip tok))"
    using set_strip_chars by (auto simp: clean_token_def)
  then have s: "\<not> isspace c" and "c = CHR ''-'' \<or> c \<in> set (strip tok)"
    using set_dash_spaces by blast+
  then have "c = CHR ''-'' \<or> c \<in> set tok"
    using set_strip_chars [of isspace tok] by (auto simp: strip_def)
  then have "\<not> is_sep c" using assms(1) by (auto simp: is_sep_def)
  with s show ?thesis by (simp add: tag_char_def is_sep_def)
qed

lemma tokens_of_no_sep: "tok \<in> set (tokens_of raw) \<Longrightarrow> c \<in> set tok \<Longrightarrow> \<not> is_sep c"
proof -
  assume "tok \<in> set (tokens_of raw)" and c: "c \<in> set tok"
  then obtain p where p: "p \<in> set (split_seps raw)" and "tok = strip p"
    by (auto simp: tokens_of_def)
  with c have "c \<in> set p" using set_strip_chars [of isspace p] by (auto simp: strip_def)
  with p show ?thesis by (rule split_seps_no_sep)
qed

lemma tags_of_text_tokens:
  "t \<in> set (tags_of_text raw) \<Longrightarrow> t \<noteq> [] \<and> list_all tag_char t"
proof -
  assume "t \<in> set (tags_of_text raw)"
  then have "t \<in> set (filter (\<lambda>t. t \<noteq> []) (map clean_token (tokens_of raw)))"
    by (simp add: tags_of_text_first_seen first_seen_def)
  then obtain tok where tok: "tok \<in> set (tokens_of raw)" and t: "t = clean_token tok" and ne: "t \<noteq> []"
    by auto
  have "\<And>c. c \<in> set t \<Longrightarrow> tag_char c"
    unfolding t using tokens_of_no_sep [OF tok] by (rule clean_token_chars)
  with ne show ?thesis by (simp add: list_all_iff)
qed

lemma split_char_none: "d \<notin> set x \<Longrightarrow> split_char d x = [x]"
  by (induction x) auto

lemma split_char_append: "d \<notin> set x \<Longrightarrow> split_char d (x @ d # r) = x # split_char d r"
  by (induction x) auto

lemma split_char_join:
  "ts \<noteq> [] \<Longrightarrow> (\<And>t. t \<in> set ts \<Longrightarrow> d \<notin> set t) \<Longrightarrow> split_char d (join [d] ts) = ts"
proof (induction "[d]" ts rule: join.induct)
  case 1
  then show ?case by simp
next
  case (2 x)
  then show ?case by (simp add: split_char_none)
next
  case (3 x y ys)
  then show ?case by (simp add: split_char_append)
qed

lemma space_not_tag_char: "\<not> tag_char (CHR '' '')"
  by (simp add: tag_char_def isspace_def)

text \<open>
  C7. For every tag cell, the output is the tokens of \<open>tags_of_text\<close> joined by single
  spaces. For every text these tokens are pairwise different, each is non-empty and holds
  no comma, no semicolon and no whitespace, they are the cleaned tokens in first-seen
  order with later duplicates dropped, and splitting the output at the spaces gives them
  back.
\<close>

theorem tag_normalizer_output:
  "tags_from_cell cell = join '' '' (tags_of_text (get_text '' '' cell)) \<and>
   distinct (tags_of_text raw) \<and>
   list_all (\<lambda>t. t \<noteq> [] \<and> list_all tag_char t) (tags_of_text raw) \<and>
   tags_of_text raw = first_seen (filter (\<lambda>t. t \<noteq> []) (map clean_token (tokens_of raw))) \<and>
   split_char (CHR '' '') (join '' '' (tags_of_text raw))
     = (if tags_of_text raw = [] then [[]] else tags_of_text raw)"
proof (intro conjI)
  show "tags_from_cell cell = join '' '' (tags_of_text (get_text '' '' cell))"
    by (simp add: tags_from_cell_def)
  show "distinct (tags_of_text raw)"
    by (simp add: tags_of_text_first_seen first_seen_def)
  show "list_all (\<lambda>t. t \<noteq> [] \<and> list_all tag_char t) (tags_of_text raw)"
    using tags_of_text_tokens [of _ raw] by (simp add: list_all_iff)
  show "tags_of_text raw = first_seen (filter (\<lambda>t. t \<noteq> []) (map clean_token (tokens_of raw)))"
    by (rule tags_of_text_first_seen)
  show "split_char (CHR '' '') (join '' '' (tags_of_text raw))
     = (if tags_of_text raw = [] then [[]] else tags_of_text raw)"
  proof (cases "tags_of_text raw = []")
    case True
    then show ?thesis by simp
  next
    case False
    have "\<And>t. t \<in> set (tags_of_text raw) \<Longrightarrow> CHR '' '' \<notin> set t"
      using tags_of_text_tokens [of _ raw] space_not_tag_char by (auto simp: list_all_iff)
    with False show ?thesis by (simp add: split_char_join)
  qed
qed

text \<open>C7, witness: a cell with a repeated tag, a tag of two words and a nested tag.\<close>

theorem tag_normalizer_output_witness:
  "tags_from_cell (\<lparr>ident = 1, name = ''td'', cls = None, attrs = []\<rparr>,
      [Text '' OSPF   LSA, Routing;OSPF LSA'', Element \<lparr>ident = 2, name = ''b'', cls = None, attrs = []\<rparr> [Text ''x,,'']])
     = ''OSPF-LSA Routing OSPF-LSA-x''"
  using tag_normalizer_output [of "(\<lparr>ident = 1, name = ''td'', cls = None, attrs = []\<rparr>,
      [Text '' OSPF   LSA, Routing;OSPF LSA'', Element \<lparr>ident = 2, name = ''b'', cls = None, attrs = []\<rparr> [Text ''x,,'']])" "[]"]
  by (simp add: get_text_def tags_of_text_def strip_def strip_chars_def lstrip_chars_def
      rstrip_chars_def isspace_def is_sep_def clean_token_def Let_def)

section \<open>Fenced code\<close>








lemma fence_sub_none: "\<not> contains FENCE s \<Longrightarrow> fence_sub repl s = s"
  by (induction s) auto






















section \<open>The Table Locator\<close>

lemma find_all_node_elems: "map fst (find_all_node p n) = filter p (elems n)"
  by (induction n) (simp_all add: map_concat filter_concat comp_def cong: map_cong)

lemma find_all_elems: "map fst (find_all p ns) = filter p (elems_list ns)"
  by (simp add: find_all_def elems_list_def map_concat filter_concat comp_def find_all_node_elems)

lemma find_tag_None: "find_tag n ns = None \<longleftrightarrow> \<not> list_ex (named n) (elems_list ns)"
proof -
  have "find_tag n ns = None \<longleftrightarrow> map fst (find_all (named n) ns) = []"
    by (simp add: find_tag_def split: list.splits)
  also have "\<dots> \<longleftrightarrow> \<not> list_ex (named n) (elems_list ns)"
    by (simp add: find_all_elems filter_empty_conv list_ex_iff)
  finally show ?thesis .
qed

lemma col_loop_dom:
  "role \<in> dom (col_loop idx headers m) \<longleftrightarrow> role \<in> dom m \<or> list_ex (maps_role role) headers"
proof (induction headers arbitrary: idx m)
  case Nil
  show ?case by simp
next
  case (Cons h hs)
  let ?m = "(if contains ''notion-id'' h then m(''id'' \<mapsto> idx)
        else if h = ''front'' then m(''front'' \<mapsto> idx)
        else if h = ''back'' then m(''back'' \<mapsto> idx)
        else if contains ''tags'' h then m(''tags'' \<mapsto> idx)
        else m)"
  have step: "role \<in> dom ?m \<longleftrightarrow> role \<in> dom m \<or> maps_role role h"
    by (auto simp: maps_role_def)
  have "role \<in> dom (col_loop idx (h # hs) m)
          \<longleftrightarrow> role \<in> dom ?m \<or> list_ex (maps_role role) hs"
    by (simp only: col_loop.simps Cons.IH)
  also have "\<dots> \<longleftrightarrow> (role \<in> dom m \<or> maps_role role h) \<or> list_ex (maps_role role) hs"
    by (simp only: step)
  also have "\<dots> \<longleftrightarrow> role \<in> dom m \<or> list_ex (maps_role role) (h # hs)"
    by auto
  finally show ?case .
qed

lemma col_loop_value:
  "col_loop idx headers m role = Some a \<Longrightarrow>
     m role = Some a \<or> (idx \<le> a \<and> a < idx + length headers \<and> maps_role role (headers ! (a - idx)))"
proof (induction headers arbitrary: idx m)
  case Nil
  then show ?case by simp
next
  case (Cons h hs)
  let ?m = "(if contains ''notion-id'' h then m(''id'' \<mapsto> idx)
        else if h = ''front'' then m(''front'' \<mapsto> idx)
        else if h = ''back'' then m(''back'' \<mapsto> idx)
        else if contains ''tags'' h then m(''tags'' \<mapsto> idx)
        else m)"
  from Cons.prems have "col_loop (Suc idx) hs ?m role = Some a" by simp
  from Cons.IH [OF this]
  have "?m role = Some a \<or> (Suc idx \<le> a \<and> a < Suc idx + length hs \<and> maps_role role (hs ! (a - Suc idx)))" .
  then show ?case
  proof
    assume "?m role = Some a"
    then have "m role = Some a \<or> (a = idx \<and> maps_role role h)"
      by (auto simp: maps_role_def split: if_splits)
    then show ?thesis by auto
  next
    assume b: "Suc idx \<le> a \<and> a < Suc idx + length hs \<and> maps_role role (hs ! (a - Suc idx))"
    then have "a - idx = Suc (a - Suc idx)" by arith
    then have "(h # hs) ! (a - idx) = hs ! (a - Suc idx)" by simp
    with b show ?thesis by auto
  qed
qed

lemma maps_role_functional: "maps_role r1 h \<Longrightarrow> maps_role r2 h \<Longrightarrow> r1 = r2"
  by (auto simp: maps_role_def split: if_splits)

lemma col_loop_distinct:
  assumes "col_loop 0 headers Map.empty r1 = Some a" "col_loop 0 headers Map.empty r2 = Some a"
  shows "r1 = r2"
  using col_loop_value [OF assms(1)] col_loop_value [OF assms(2)]
  by (auto intro: maps_role_functional)

lemma check_required_None: "check_required cols m = None \<longleftrightarrow> set cols \<subseteq> dom m"
  by (induction cols) auto

lemma check_required_Some:
  "check_required cols m = Some e \<Longrightarrow> \<exists>col\<in>set cols. col \<notin> dom m \<and> e = missing_column col"
  by (induction cols) (auto split: if_splits)

lemma required_mapped_dom:
  "required_mapped headers \<longleftrightarrow> {''id'', ''front'', ''back''} \<subseteq> dom (col_loop 0 headers Map.empty)"
proof -
  have "\<And>role. role \<in> dom (col_loop 0 headers Map.empty) \<longleftrightarrow> list_ex (maps_role role) headers"
    by (simp add: col_loop_dom)
  then show ?thesis by (simp add: required_mapped_def)
qed

lemma parse_table_cases:
  "parse_table soup =
     (case find_tag ''table'' soup of
        None \<Rightarrow> Inl (RuntimeError ''Could not find <table> in HTML export.'')
      | Some table \<Rightarrow>
          (case find_tag ''thead'' (snd table) of
             None \<Rightarrow> Inl (RuntimeError ''Could not find <thead> in HTML table.'')
           | Some thead \<Rightarrow>
               if required_mapped (headers_of thead)
               then Inr (table, col_loop 0 (headers_of thead) Map.empty)
               else (case check_required [''id'', ''front'', ''back'']
                            (col_loop 0 (headers_of thead) Map.empty) of
                       None \<Rightarrow> Inr (table, col_loop 0 (headers_of thead) Map.empty)
                     | Some e \<Rightarrow> Inl e)))"
proof -
  have "required_mapped hs \<Longrightarrow>
          check_required [''id'', ''front'', ''back''] (col_loop 0 hs Map.empty) = None" for hs
    by (simp only: check_required_None required_mapped_dom) simp
  then show ?thesis
    by (auto simp: parse_table_def Let_def split: option.splits)
qed

lemma parse_table_missing:
  assumes "find_tag ''table'' soup = Some table" "find_tag ''thead'' (snd table) = Some thead"
    and "\<not> required_mapped (headers_of thead)"
  shows "\<exists>col\<in>set [''id'', ''front'', ''back''].
           \<not> list_ex (maps_role col) (headers_of thead) \<and>
           parse_table soup = Inl (missing_column col)"
proof -
  let ?m = "col_loop 0 (headers_of thead) Map.empty"
  from assms(3) have "\<not> set [''id'', ''front'', ''back''] \<subseteq> dom ?m"
    by (simp add: required_mapped_dom)
  then have "check_required [''id'', ''front'', ''back''] ?m \<noteq> None"
    by (simp only: check_required_None not_False_eq_True)
  then obtain e where e: "check_required [''id'', ''front'', ''back''] ?m = Some e" by blast
  from check_required_Some [OF e] obtain col where
    c: "col \<in> set [''id'', ''front'', ''back'']" "col \<notin> dom ?m" "e = missing_column col"
    by blast
  from c(2) have "\<not> list_ex (maps_role col) (headers_of thead)" by (simp add: col_loop_dom)
  moreover have "parse_table soup = Inl (missing_column col)"
    using assms(1,2) e c(3) by (simp add: parse_table_def Let_def)
  ultimately show ?thesis using c(1) by blast
qed

text \<open>
  C1. A document without a table, a first table without a header section, headers that
  leave one of the roles \<open>id\<close>, \<open>front\<close>, \<open>back\<close> without a column, and a first table
  without a body section each end the conversion with a \<open>RuntimeError\<close> (the error the
  specification calls StructureError) whose message says what is missing, for a missing
  column with the name of a role that no header maps. Every document that is not well
  formed in this sense is answered by such an error, and no record is returned.
\<close>

theorem structure_errors:
  "(\<not> list_ex (named ''table'') (elems_list soup) \<longrightarrow>
      convert_file parse decode soup
        = Inl (RuntimeError ''Could not find <table> in HTML export.'')) \<and>
   (find_tag ''table'' soup = Some table \<and>
    \<not> list_ex (named ''thead'') (elems_list (snd table)) \<longrightarrow>
      convert_file parse decode soup
        = Inl (RuntimeError ''Could not find <thead> in HTML table.'')) \<and>
   (find_tag ''table'' soup = Some table \<and> find_tag ''thead'' (snd table) = Some thead \<and>
    \<not> required_mapped (headers_of thead) \<longrightarrow>
      list_ex (\<lambda>col. \<not> list_ex (maps_role col) (headers_of thead) \<and>
                 convert_file parse decode soup
                   = Inl (RuntimeError (''Missing required column '' @ [CHR 0x27] @ col
                                        @ [CHR 0x27] @ '' in Notion table.'')))
        [''id'', ''front'', ''back'']) \<and>
   (find_tag ''table'' soup = Some table \<and> find_tag ''thead'' (snd table) = Some thead \<and>
    required_mapped (headers_of thead) \<and>
    \<not> list_ex (named ''tbody'') (elems_list (snd table)) \<longrightarrow>
      convert_file parse decode soup
        = Inl (RuntimeError ''Could not find <tbody> in HTML table.'')) \<and>
   (\<not> well_formed soup \<longrightarrow>
      (\<exists>msg. convert_file parse decode soup = Inl (RuntimeError msg)))"
proof (intro conjI impI)
  assume "\<not> list_ex (named ''table'') (elems_list soup)"
  then have "find_tag ''table'' soup = None" by (simp add: find_tag_None)
  then show "convert_file parse decode soup
        = Inl (RuntimeError ''Could not find <table> in HTML export.'')"
    by (simp add: convert_file_def parse_table_def)
next
  assume "find_tag ''table'' soup = Some table \<and>
    \<not> list_ex (named ''thead'') (elems_list (snd table))"
  then have "find_tag ''table'' soup = Some table" "find_tag ''thead'' (snd table) = None"
    by (simp_all add: find_tag_None)
  then show "convert_file parse decode soup
        = Inl (RuntimeError ''Could not find <thead> in HTML table.'')"
    by (simp add: convert_file_def parse_table_def)
next
  assume a: "find_tag ''table'' soup = Some table \<and> find_tag ''thead'' (snd table) = Some thead \<and>
    \<not> required_mapped (headers_of thead)"
  with parse_table_missing [of soup table thead] obtain col where
    c: "col \<in> set [''id'', ''front'', ''back'']" "\<not> list_ex (maps_role col) (headers_of thead)"
       "parse_table soup = Inl (missing_column col)"
    by blast
  from c(3) have "convert_file parse decode soup
                   = Inl (RuntimeError (''Missing required column '' @ [CHR 0x27] @ col
                                        @ [CHR 0x27] @ '' in Notion table.''))"
    by (simp add: convert_file_def missing_column_def)
  with c(1,2) show "list_ex (\<lambda>col. \<not> list_ex (maps_role col) (headers_of thead) \<and>
                 convert_file parse decode soup
                   = Inl (RuntimeError (''Missing required column '' @ [CHR 0x27] @ col
                                        @ [CHR 0x27] @ '' in Notion table.'')))
        [''id'', ''front'', ''back'']"
    unfolding list_ex_iff by blast
next
  assume "find_tag ''table'' soup = Some table \<and> find_tag ''thead'' (snd table) = Some thead \<and>
    required_mapped (headers_of thead) \<and>
    \<not> list_ex (named ''tbody'') (elems_list (snd table))"
  then have "find_tag ''table'' soup = Some table" "find_tag ''thead'' (snd table) = Some thead"
    "required_mapped (headers_of thead)" "find_tag ''tbody'' (snd table) = None"
    by (simp_all add: find_tag_None)
  then show "convert_file parse decode soup
        = Inl (RuntimeError ''Could not find <tbody> in HTML table.'')"
    by (simp add: convert_file_def parse_table_cases)
next
  assume w: "\<not> well_formed soup"
  show "\<exists>msg. convert_file parse decode soup = Inl (RuntimeError msg)"
  proof (cases "find_tag ''table'' soup")
    case None
    then show ?thesis by (simp add: convert_file_def parse_table_def)
  next
    case (Some table)
    note t = this
    show ?thesis
    proof (cases "find_tag ''thead'' (snd table)")
      case None
      with t show ?thesis by (simp add: convert_file_def parse_table_def)
    next
      case (Some thead)
      note h = this
      show ?thesis
      proof (cases "required_mapped (headers_of thead)")
        case True
        with w t h have "find_tag ''tbody'' (snd table) = None"
          by (cases "find_tag ''tbody'' (snd table)") (auto simp: well_formed_def)
        with t h True show ?thesis by (simp add: convert_file_def parse_table_cases)
      next
        case False
        with parse_table_missing [OF t h] obtain col where
          "parse_table soup = Inl (missing_column col)" by blast
        then show ?thesis by (simp add: convert_file_def missing_column_def)
      qed
    qed
  qed
qed

text \<open>C1, witness: a table whose headers are Notion-ID, Front and Tags.\<close>

theorem structure_errors_witness:
  "convert_file (\<lambda>s. []) (\<lambda>ns. [])
     [Element \<lparr>ident = 1, name = ''table'', cls = None, attrs = []\<rparr>
        [Element \<lparr>ident = 2, name = ''thead'', cls = None, attrs = []\<rparr>
           [Element \<lparr>ident = 3, name = ''th'', cls = None, attrs = []\<rparr> [Text ''Notion-ID''],
            Element \<lparr>ident = 4, name = ''th'', cls = None, attrs = []\<rparr> [Text ''Front''],
            Element \<lparr>ident = 5, name = ''th'', cls = None, attrs = []\<rparr> [Text ''Tags'']],
         Element \<lparr>ident = 6, name = ''tbody'', cls = None, attrs = []\<rparr> []]]
   = Inl (RuntimeError (''Missing required column '' @ [CHR 0x27] @ ''back'' @ [CHR 0x27]
                        @ '' in Notion table.''))"
proof -
  let ?thead = "(\<lparr>ident = 2, name = ''thead'', cls = None, attrs = []\<rparr>,
           [Element \<lparr>ident = 3, name = ''th'', cls = None, attrs = []\<rparr> [Text ''Notion-ID''],
            Element \<lparr>ident = 4, name = ''th'', cls = None, attrs = []\<rparr> [Text ''Front''],
            Element \<lparr>ident = 5, name = ''th'', cls = None, attrs = []\<rparr> [Text ''Tags'']])"
  let ?table = "(\<lparr>ident = 1, name = ''table'', cls = None, attrs = []\<rparr>,
        [Element (fst ?thead) (snd ?thead),
         Element \<lparr>ident = 6, name = ''tbody'', cls = None, attrs = []\<rparr> []])"
  let ?soup = "[Element (fst ?table) (snd ?table)]"
  have t: "find_tag ''table'' ?soup = Some ?table" by code_simp
  have h: "find_tag ''thead'' (snd ?table) = Some ?thead" by code_simp
  have n: "\<not> required_mapped (headers_of ?thead)" by code_simp
  have m: "list_ex (maps_role ''id'') (headers_of ?thead)"
    "list_ex (maps_role ''front'') (headers_of ?thead)" by code_simp+
  from structure_errors [where soup = "?soup" and table = "?table" and thead = "?thead"
      and parse = "\<lambda>s. []" and decode = "\<lambda>ns. []"] t h n
  have "list_ex (\<lambda>col. \<not> list_ex (maps_role col) (headers_of ?thead) \<and>
                 convert_file (\<lambda>s. []) (\<lambda>ns. []) ?soup
                   = Inl (RuntimeError (''Missing required column '' @ [CHR 0x27] @ col
                                        @ [CHR 0x27] @ '' in Notion table.'')))
        [''id'', ''front'', ''back'']"
    by blast
  with m show ?thesis by simp
qed

section \<open>The Conversion Orchestrator\<close>

lemma sanitize_rich:
  "\<exists>tree. sanitize_tree (snd cell) = Inr tree \<and>
     sanitize_inline_html parse decode cell False = Inr ((fst cell, tree), render parse decode tree)"
  by (simp add: sanitize_inline_html_def sanitize_tree_total)

lemma sanitize_plain:
  "sanitize_inline_html parse decode cell True = Inr (cell, get_text '' '' cell)"
  by (simp add: sanitize_inline_html_def)

lemma in_range_iff:
  "in_range col_map tds \<longleftrightarrow>
     (\<exists>i j k. col_map ''id'' = Some i \<and> col_map ''front'' = Some j \<and> col_map ''back'' = Some k \<and>
        i < length tds \<and> j < length tds \<and> k < length tds \<and>
        (case col_map ''tags'' of None \<Rightarrow> True | Some t \<Rightarrow> t < length tds))"
  by (auto simp: in_range_def split: option.splits)

lemma required_present_iff:
  "required_present col_map \<longleftrightarrow>
     (\<exists>i j k. col_map ''id'' = Some i \<and> col_map ''front'' = Some j \<and> col_map ''back'' = Some k)"
  by (auto simp: required_present_def)

lemma convert_row_card:
  assumes "col_map ''id'' = Some i" "col_map ''front'' = Some j" "col_map ''back'' = Some k"
    and "i < length tds" "j < length tds" "k < length tds"
    and "case col_map ''tags'' of None \<Rightarrow> True | Some t \<Rightarrow> t < length tds"
  shows "\<exists>tree. sanitize_tree (snd (tds ! k)) = Inr tree \<and>
           convert_row parse decode col_map doc tds
             = Inr (\<lparr>Notion_ID = get_text [] (tds ! i), Front = get_text '' '' (tds ! j),
                     Back = render parse decode tree,
                     Tags = (case col_map ''tags'' of
                               None \<Rightarrow> []
                             | Some t \<Rightarrow>
                                 tags_from_cell
                                   (current (map (put_contents (ident (fst (tds ! k))) tree) doc)
                                      (tds ! t)))\<rparr>,
                    map (put_contents (ident (fst (tds ! k))) tree) doc)"
proof -
  from sanitize_rich [of "tds ! k" parse decode] obtain tree where
    t: "sanitize_tree (snd (tds ! k)) = Inr tree"
       "sanitize_inline_html parse decode (tds ! k) False
          = Inr ((fst (tds ! k), tree), render parse decode tree)"
    by blast
  note f = sanitize_plain [of parse decode "tds ! j"]
  have "convert_row parse decode col_map doc tds
             = Inr (\<lparr>Notion_ID = get_text [] (tds ! i), Front = get_text '' '' (tds ! j),
                     Back = render parse decode tree,
                     Tags = (case col_map ''tags'' of
                               None \<Rightarrow> []
                             | Some t \<Rightarrow>
                                 tags_from_cell
                                   (current (map (put_contents (ident (fst (tds ! k))) tree) doc)
                                      (tds ! t)))\<rparr>,
                    map (put_contents (ident (fst (tds ! k))) tree) doc)"
  proof (cases "col_map ''tags''")
    case None
    then have "''tags'' \<notin> dom col_map" by (simp add: domIff)
    with assms(1-6) f t(2) None show ?thesis
      by (simp add: convert_row_def cell_at_def Let_def)
  next
    case (Some u)
    then have "''tags'' \<in> dom col_map" by (simp add: domIff)
    with assms f t(2) Some show ?thesis
      by (simp add: convert_row_def cell_at_def Let_def)
  qed
  with t(1) show ?thesis by blast
qed

lemma convert_row_short:
  assumes "required_present col_map" "\<not> in_range col_map tds"
  shows "convert_row parse decode col_map doc tds = Inl IndexError"
proof -
  from assms(1) obtain i j k where
    m: "col_map ''id'' = Some i" "col_map ''front'' = Some j" "col_map ''back'' = Some k"
    by (auto simp: required_present_iff)
  from sanitize_rich [of "tds ! k" parse decode] obtain tree where
    t: "sanitize_inline_html parse decode (tds ! k) False
          = Inr ((fst (tds ! k), tree), render parse decode tree)"
    by blast
  note f = sanitize_plain [of parse decode "tds ! j"]
  show ?thesis
  proof (cases "i < length tds \<and> j < length tds \<and> k < length tds")
    case False
    with m f t show ?thesis
      by (auto simp: convert_row_def cell_at_def Let_def)
  next
    case True
    with assms(2) m obtain u where u: "col_map ''tags'' = Some u" "\<not> u < length tds"
      by (auto simp: in_range_iff split: option.splits)
    then have "''tags'' \<in> dom col_map" by (simp add: domIff)
    with True m f t u show ?thesis
      by (simp add: convert_row_def cell_at_def Let_def)
  qed
qed

lemma convert_row_fits:
  assumes "in_range col_map (cells doc tr)"
  shows "\<exists>card. convert_row parse decode col_map doc (cells doc tr)
                  = Inr (card, row_doc col_map doc tr)"
proof -
  from assms obtain i j k where
    m: "col_map ''id'' = Some i" "col_map ''front'' = Some j" "col_map ''back'' = Some k"
    and l: "i < length (cells doc tr)" "j < length (cells doc tr)" "k < length (cells doc tr)"
    and u: "case col_map ''tags'' of None \<Rightarrow> True | Some t \<Rightarrow> t < length (cells doc tr)"
    by (auto simp: in_range_iff)
  from convert_row_card [OF m l u, of parse decode doc] obtain tree where
    t: "sanitize_tree (snd (cells doc tr ! k)) = Inr tree"
    and c: "\<exists>card. convert_row parse decode col_map doc (cells doc tr)
              = Inr (card, map (put_contents (ident (fst (cells doc tr ! k))) tree) doc)"
    by blast
  from m l t have "row_doc col_map doc tr
      = map (put_contents (ident (fst (cells doc tr ! k))) tree) doc"
    by (simp add: row_doc_def Let_def)
  with c show ?thesis by simp
qed

lemma row_doc_no_cells: "cells doc tr = [] \<Longrightarrow> row_doc col_map doc tr = doc"
  by (simp add: row_doc_def Let_def split: option.splits)

lemma convert_rows_ok:
  assumes "list_all (row_fits col_map) (found col_map doc trs)"
  shows "\<exists>cards. convert_rows parse decode col_map trs doc rows_out = Inr (rows_out @ cards) \<and>
           list_all2 (\<lambda>r card. convert_row parse decode col_map (snd r) (cells (snd r) (fst r))
                                  = Inr (card, row_doc col_map (snd r) (fst r)))
             (filter has_cells (found col_map doc trs)) cards"
  using assms
proof (induction trs arbitrary: doc rows_out)
  case Nil
  then show ?case by simp
next
  case (Cons tr trs)
  from Cons.prems have rest: "list_all (row_fits col_map) (found col_map (row_doc col_map doc tr) trs)"
    by simp
  show ?case
  proof (cases "has_cells (tr, doc)")
    case False
    then have e: "cells doc tr = []" by (simp add: has_cells_def)
    then have d: "row_doc col_map doc tr = doc" by (rule row_doc_no_cells)
    from Cons.IH [OF rest, of rows_out] False e d show ?thesis
      by (simp add: Let_def cells_def)
  next
    case True
    then have ne: "cells doc tr \<noteq> []" by (simp add: has_cells_def)
    from True Cons.prems have "in_range col_map (cells doc tr)" by (simp add: row_fits_def)
    from convert_row_fits [OF this, of parse decode] obtain card where
      c: "convert_row parse decode col_map doc (cells doc tr) = Inr (card, row_doc col_map doc tr)"
      by blast
    from Cons.IH [OF rest, of "rows_out @ [card]"] obtain cards where
      r: "convert_rows parse decode col_map trs (row_doc col_map doc tr) (rows_out @ [card])
            = Inr ((rows_out @ [card]) @ cards)"
         "list_all2 (\<lambda>r card. convert_row parse decode col_map (snd r) (cells (snd r) (fst r))
                                  = Inr (card, row_doc col_map (snd r) (fst r)))
             (filter has_cells (found col_map (row_doc col_map doc tr) trs)) cards"
      by blast
    have "convert_rows parse decode col_map (tr # trs) doc rows_out = Inr (rows_out @ (card # cards))"
      using ne c r(1) by (simp add: Let_def cells_def)
    moreover have "list_all2 (\<lambda>r card. convert_row parse decode col_map (snd r) (cells (snd r) (fst r))
                                  = Inr (card, row_doc col_map (snd r) (fst r)))
             (filter has_cells (found col_map doc (tr # trs))) (card # cards)"
      using True c r(2) by simp
    ultimately show ?thesis by blast
  qed
qed

lemma convert_rows_append:
  assumes "list_all (row_fits col_map) (found col_map doc pre)"
  shows "\<exists>cards. convert_rows parse decode col_map (pre @ rest) doc rows_out
           = convert_rows parse decode col_map rest (foldl (row_doc col_map) doc pre)
               (rows_out @ cards)"
  using assms
proof (induction pre arbitrary: doc rows_out)
  case Nil
  have "convert_rows parse decode col_map rest doc rows_out
          = convert_rows parse decode col_map rest doc (rows_out @ [])" by simp
  then show ?case by (simp del: append_Nil2) blast
next
  case (Cons tr pre)
  from Cons.prems have rest: "list_all (row_fits col_map) (found col_map (row_doc col_map doc tr) pre)"
    by simp
  show ?case
  proof (cases "has_cells (tr, doc)")
    case False
    then have e: "cells doc tr = []" by (simp add: has_cells_def)
    then have d: "row_doc col_map doc tr = doc" by (rule row_doc_no_cells)
    from Cons.IH [OF rest, of rows_out] e d show ?thesis
      by (simp add: Let_def cells_def)
  next
    case True
    then have ne: "cells doc tr \<noteq> []" by (simp add: has_cells_def)
    from True Cons.prems have "in_range col_map (cells doc tr)" by (simp add: row_fits_def)
    from convert_row_fits [OF this, of parse decode] obtain card where
      c: "convert_row parse decode col_map doc (cells doc tr) = Inr (card, row_doc col_map doc tr)"
      by blast
    from Cons.IH [OF rest, of "rows_out @ [card]"] obtain cards where
      r: "convert_rows parse decode col_map (pre @ rest) (row_doc col_map doc tr) (rows_out @ [card])
            = convert_rows parse decode col_map rest
                (foldl (row_doc col_map) (row_doc col_map doc tr) pre) ((rows_out @ [card]) @ cards)"
      by blast
    have "convert_rows parse decode col_map ((tr # pre) @ rest) doc rows_out
            = convert_rows parse decode col_map rest (foldl (row_doc col_map) doc (tr # pre))
                (rows_out @ (card # cards))"
      using ne c r by (simp add: Let_def cells_def)
    then show ?thesis by blast
  qed
qed

lemma convert_rows_short:
  assumes "required_present col_map" "cells doc tr \<noteq> []" "\<not> in_range col_map (cells doc tr)"
  shows "convert_rows parse decode col_map (tr # post) doc rows_out = Inl IndexError"
  using assms convert_row_short [OF assms(1,3), of parse decode doc]
  by (simp add: Let_def cells_def)

lemma parse_table_required:
  assumes "parse_table soup = Inr (table, col_map)"
  shows "required_present col_map"
proof -
  from assms obtain thead where
    c: "col_map = col_loop 0 (headers_of thead) Map.empty"
    and r: "check_required [''id'', ''front'', ''back''] col_map = None"
    by (auto simp: parse_table_def Let_def split: option.splits)
  from r have "set [''id'', ''front'', ''back''] \<subseteq> dom col_map"
    by (simp only: check_required_None)
  then show ?thesis by (auto simp: required_present_def dom_def)
qed

text \<open>
  C2, as amended. The rows and the cells of a row are tag objects of one document that the
  sanitizer changes in place; a row has the cells it has when the loop reaches it.

  For a row with a cell at every index of the column map, the loop body raises nothing and
  gives one record: the text of the id cell, the plain text of the front cell, the
  rendered rich markup of the back cell and the normalized tags of the tags cell as the
  sanitizing of the back cell has left it, or the empty string when no column has that
  role; in the document the back cell then holds its sanitized children, and nothing else
  has changed. For a row that lacks a cell at one of these indices the loop body raises
  \<open>IndexError\<close>.

  When every row that has a cell when the loop reaches it has a cell at every index of the
  column map, the conversion returns one record for each of these rows, in the order of
  the rows, and the rows without cells give nothing. When the rows before a row are such
  rows and the row has a cell but lacks one at an index of the column map, the conversion
  ends with \<open>IndexError\<close> and returns no record. The column map of \<open>parse_table\<close> has
  the three required roles.
\<close>

theorem rows_to_records:
  "(in_range col_map tds \<and> col_map ''id'' = Some i \<and> col_map ''front'' = Some j \<and>
    col_map ''back'' = Some k \<longrightarrow>
      (\<exists>tree. sanitize_tree (snd (tds ! k)) = Inr tree \<and>
         convert_row parse decode col_map doc tds
           = Inr (\<lparr>Notion_ID = get_text [] (tds ! i), Front = get_text '' '' (tds ! j),
                   Back = render parse decode tree,
                   Tags = (case col_map ''tags'' of
                             None \<Rightarrow> []
                           | Some t \<Rightarrow>
                               tags_from_cell
                                 (current (map (put_contents (ident (fst (tds ! k))) tree) doc)
                                    (tds ! t)))\<rparr>,
                  map (put_contents (ident (fst (tds ! k))) tree) doc))) \<and>
   (required_present col_map \<and> \<not> in_range col_map tds \<longrightarrow>
      convert_row parse decode col_map doc tds = Inl IndexError) \<and>
   (list_all (row_fits col_map) (found col_map doc trs) \<longrightarrow>
      (\<exists>cards. convert_rows parse decode col_map trs doc [] = Inr cards \<and>
         list_all2 (\<lambda>r card. convert_row parse decode col_map (snd r) (cells (snd r) (fst r))
                                = Inr (card, row_doc col_map (snd r) (fst r)))
           (filter has_cells (found col_map doc trs)) cards)) \<and>
   (required_present col_map \<and> list_all (row_fits col_map) (found col_map doc pre) \<and>
    has_cells (tr, foldl (row_doc col_map) doc pre) \<and>
    \<not> in_range col_map (cells (foldl (row_doc col_map) doc pre) tr) \<longrightarrow>
      convert_rows parse decode col_map (pre @ tr # post) doc [] = Inl IndexError) \<and>
   (parse_table soup = Inr (table, col_map) \<and> find_tag ''tbody'' (snd table) = Some tbody \<longrightarrow>
      convert_file parse decode soup
        = convert_rows parse decode col_map (find_all (named ''tr'') (snd tbody)) (snd tbody) [] \<and>
      required_present col_map)"
proof (intro conjI impI)
  assume a: "in_range col_map tds \<and> col_map ''id'' = Some i \<and> col_map ''front'' = Some j \<and>
    col_map ''back'' = Some k"
  then have l: "i < length tds" "j < length tds" "k < length tds"
    and u: "case col_map ''tags'' of None \<Rightarrow> True | Some t \<Rightarrow> t < length tds"
    by (auto simp: in_range_iff)
  from a have m: "col_map ''id'' = Some i" "col_map ''front'' = Some j" "col_map ''back'' = Some k"
    by simp_all
  show "\<exists>tree. sanitize_tree (snd (tds ! k)) = Inr tree \<and>
         convert_row parse decode col_map doc tds
           = Inr (\<lparr>Notion_ID = get_text [] (tds ! i), Front = get_text '' '' (tds ! j),
                   Back = render parse decode tree,
                   Tags = (case col_map ''tags'' of
                             None \<Rightarrow> []
                           | Some t \<Rightarrow>
                               tags_from_cell
                                 (current (map (put_contents (ident (fst (tds ! k))) tree) doc)
                                    (tds ! t)))\<rparr>,
                  map (put_contents (ident (fst (tds ! k))) tree) doc)"
    by (rule convert_row_card [OF m l u])
next
  assume "required_present col_map \<and> \<not> in_range col_map tds"
  then show "convert_row parse decode col_map doc tds = Inl IndexError"
    using convert_row_short by blast
next
  assume "list_all (row_fits col_map) (found col_map doc trs)"
  from convert_rows_ok [OF this, of parse decode "[]"]
  show "\<exists>cards. convert_rows parse decode col_map trs doc [] = Inr cards \<and>
         list_all2 (\<lambda>r card. convert_row parse decode col_map (snd r) (cells (snd r) (fst r))
                                = Inr (card, row_doc col_map (snd r) (fst r)))
           (filter has_cells (found col_map doc trs)) cards"
    by simp
next
  assume a: "required_present col_map \<and> list_all (row_fits col_map) (found col_map doc pre) \<and>
    has_cells (tr, foldl (row_doc col_map) doc pre) \<and>
    \<not> in_range col_map (cells (foldl (row_doc col_map) doc pre) tr)"
  then have p: "list_all (row_fits col_map) (found col_map doc pre)" by simp
  from convert_rows_append [OF p, of parse decode "tr # post" "[]"] obtain cards where
    "convert_rows parse decode col_map (pre @ tr # post) doc []
       = convert_rows parse decode col_map (tr # post) (foldl (row_doc col_map) doc pre) cards"
    by auto
  moreover from a have "convert_rows parse decode col_map (tr # post)
      (foldl (row_doc col_map) doc pre) cards = Inl IndexError"
    by (intro convert_rows_short) (simp_all add: has_cells_def)
  ultimately show "convert_rows parse decode col_map (pre @ tr # post) doc [] = Inl IndexError"
    by simp
next
  assume a: "parse_table soup = Inr (table, col_map) \<and> find_tag ''tbody'' (snd table) = Some tbody"
  then show "convert_file parse decode soup
        = convert_rows parse decode col_map (find_all (named ''tr'') (snd tbody)) (snd tbody) []"
    by (simp add: convert_file_def)
  from a show "required_present col_map" using parse_table_required by blast
qed

text \<open>
  C2, witness: the table of the repository's test with a row without cells before the
  data row, and a serializer that writes a tag with its attributes around its strings.
\<close>

theorem rows_to_records_witness:
  "convert_file (\<lambda>s. [Text s])
     (\<lambda>ns. concat (map (\<lambda>n. case n of
                   Text t \<Rightarrow> t
                 | Other t \<Rightarrow> t
                 | Element e ch \<Rightarrow>
                     ''<'' @ name e
                       @ concat (map (\<lambda>(k, v). '' '' @ k @ ''='' @ [CHR 0x22] @ v @ [CHR 0x22])
                                   (attrs e))
                       @ ''>'' @ concat (concat (map all_strings ch))
                       @ ''</'' @ name e @ ''>'') ns))
     [Element \<lparr>ident = 1, name = ''table'', cls = None, attrs = []\<rparr>
        [Element \<lparr>ident = 2, name = ''thead'', cls = None, attrs = []\<rparr>
           [Element \<lparr>ident = 3, name = ''th'', cls = None, attrs = []\<rparr> [Text ''Notion-ID''],
            Element \<lparr>ident = 4, name = ''th'', cls = None, attrs = []\<rparr> [Text ''Front''],
            Element \<lparr>ident = 5, name = ''th'', cls = None, attrs = []\<rparr> [Text ''Back''],
            Element \<lparr>ident = 6, name = ''th'', cls = None, attrs = []\<rparr> [Text ''Tags'']],
         Element \<lparr>ident = 7, name = ''tbody'', cls = None, attrs = []\<rparr>
           [Element \<lparr>ident = 8, name = ''tr'', cls = None, attrs = []\<rparr> [],
            Element \<lparr>ident = 9, name = ''tr'', cls = None, attrs = []\<rparr>
              [Element \<lparr>ident = 10, name = ''td'', cls = None, attrs = []\<rparr> [Text ''123''],
               Element \<lparr>ident = 11, name = ''td'', cls = None, attrs = []\<rparr>
                 [Text ''What is OSPF?''],
               Element \<lparr>ident = 12, name = ''td'', cls = None, attrs = []\<rparr>
                 [Element \<lparr>ident = 13, name = ''mark'', cls = Some [''highlight-red''],
                           attrs = []\<rparr>
                    [Text ''Link-state''],
                  Text '' protocol''],
               Element \<lparr>ident = 14, name = ''td'', cls = None, attrs = []\<rparr>
                 [Text ''OSPF LSA, Routing'']]]]]
   = Inr [\<lparr>Notion_ID = ''123'', Front = ''What is OSPF?'',
            Back = ''<span style='' @ [CHR 0x22] @ ''color:red'' @ [CHR 0x22]
                     @ ''>Link-state</span> protocol'',
            Tags = ''OSPF-LSA Routing''\<rparr>]"
proof -
  let ?P = "\<lambda>s. [Text s]"
  let ?D = "(\<lambda>ns. concat (map (\<lambda>n. case n of
                     Text t \<Rightarrow> t
                   | Other t \<Rightarrow> t
                   | Element e ch \<Rightarrow>
                       ''<'' @ name e
                         @ concat (map (\<lambda>(k, v). '' '' @ k @ ''='' @ [CHR 0x22] @ v @ [CHR 0x22])
                                     (attrs e))
                         @ ''>'' @ concat (concat (map all_strings ch))
                         @ ''</'' @ name e @ ''>'') ns))"
  let ?thead = "(\<lparr>ident = 2, name = ''thead'', cls = None, attrs = []\<rparr>,
           [Element \<lparr>ident = 3, name = ''th'', cls = None, attrs = []\<rparr> [Text ''Notion-ID''],
            Element \<lparr>ident = 4, name = ''th'', cls = None, attrs = []\<rparr> [Text ''Front''],
            Element \<lparr>ident = 5, name = ''th'', cls = None, attrs = []\<rparr> [Text ''Back''],
            Element \<lparr>ident = 6, name = ''th'', cls = None, attrs = []\<rparr> [Text ''Tags'']])"
  let ?tds = "[(\<lparr>ident = 10, name = ''td'', cls = None, attrs = []\<rparr>, [Text ''123'']),
               (\<lparr>ident = 11, name = ''td'', cls = None, attrs = []\<rparr>, [Text ''What is OSPF?'']),
               (\<lparr>ident = 12, name = ''td'', cls = None, attrs = []\<rparr>,
                 [Element \<lparr>ident = 13, name = ''mark'', cls = Some [''highlight-red''],
                           attrs = []\<rparr>
                    [Text ''Link-state''],
                  Text '' protocol'']),
               (\<lparr>ident = 14, name = ''td'', cls = None, attrs = []\<rparr>,
                 [Text ''OSPF LSA, Routing''])]"
  let ?tr0 = "(\<lparr>ident = 8, name = ''tr'', cls = None, attrs = []\<rparr>, [] :: node list)"
  let ?tr1 = "(\<lparr>ident = 9, name = ''tr'', cls = None, attrs = []\<rparr>,
               map (\<lambda>t. Element (fst t) (snd t)) ?tds)"
  let ?doc = "[Element (fst ?tr0) (snd ?tr0), Element (fst ?tr1) (snd ?tr1)]"
  let ?tbody = "(\<lparr>ident = 7, name = ''tbody'', cls = None, attrs = []\<rparr>, ?doc)"
  let ?table = "(\<lparr>ident = 1, name = ''table'', cls = None, attrs = []\<rparr>,
        [Element (fst ?thead) (snd ?thead), Element (fst ?tbody) (snd ?tbody)])"
  let ?soup = "[Element (fst ?table) (snd ?table)]"
  let ?cm = "col_loop 0 (headers_of ?thead) Map.empty"
  let ?tree = "[Element \<lparr>ident = 13, name = ''span'', cls = None,
                         attrs = [(''style'', ''color:red'')]\<rparr> [Text ''Link-state''],
                Text '' protocol'']"
  have t: "find_tag ''table'' ?soup = Some ?table" by code_simp
  have h: "find_tag ''thead'' (snd ?table) = Some ?thead" by code_simp
  have b: "find_tag ''tbody'' (snd ?table) = Some ?tbody" by code_simp
  have q: "required_mapped (headers_of ?thead)" by code_simp
  have p: "parse_table ?soup = Inr (?table, ?cm)"
    using t h q by (simp only: parse_table_cases option.case if_True)
  have trs: "find_all (named ''tr'') (snd ?tbody) = [?tr0, ?tr1]" by code_simp
  have fits: "list_all (row_fits ?cm) (found ?cm ?doc [?tr0, ?tr1])" by code_simp
  have rows: "filter has_cells (found ?cm ?doc [?tr0, ?tr1]) = [(?tr1, ?doc)]" by code_simp
  have tds: "cells ?doc ?tr1 = ?tds" by code_simp
  have ok: "in_range ?cm ?tds" by code_simp
  have cm: "?cm ''id'' = Some 0" "?cm ''front'' = Some 1" "?cm ''back'' = Some 2"
    "?cm ''tags'' = Some 3" by code_simp+
  note rr = rows_to_records [where col_map = "?cm" and tds = "?tds" and i = 0 and j = 1
      and k = 2 and parse = "?P" and decode = "?D" and trs = "[?tr0, ?tr1]" and soup = "?soup"
      and table = "?table" and tbody = "?tbody" and doc = "?doc"]
  from rr p b trs have f: "convert_file ?P ?D ?soup = convert_rows ?P ?D ?cm [?tr0, ?tr1] ?doc []"
    by simp
  from rr fits obtain cards where
    c: "convert_rows ?P ?D ?cm [?tr0, ?tr1] ?doc [] = Inr cards"
       "list_all2 (\<lambda>r card. convert_row ?P ?D ?cm (snd r) (cells (snd r) (fst r))
                                = Inr (card, row_doc ?cm (snd r) (fst r)))
           (filter has_cells (found ?cm ?doc [?tr0, ?tr1])) cards"
    by blast
  from c(2) obtain card where
    d: "cards = [card]"
       "convert_row ?P ?D ?cm ?doc (cells ?doc ?tr1) = Inr (card, row_doc ?cm ?doc ?tr1)"
    unfolding rows by (auto simp: list_all2_Cons1)
  from rr [THEN conjunct1] ok cm(1-3) obtain tree where
    e: "sanitize_tree (snd (?tds ! 2)) = Inr tree"
       "convert_row ?P ?D ?cm ?doc ?tds
           = Inr (\<lparr>Notion_ID = get_text [] (?tds ! 0), Front = get_text '' '' (?tds ! 1),
                   Back = render ?P ?D tree,
                   Tags = (case ?cm ''tags'' of
                             None \<Rightarrow> []
                           | Some t \<Rightarrow>
                               tags_from_cell
                                 (current (map (put_contents (ident (fst (?tds ! 2))) tree) ?doc)
                                    (?tds ! t)))\<rparr>,
                  map (put_contents (ident (fst (?tds ! 2))) tree) ?doc)"
    by blast
  have tr: "sanitize_tree (snd (?tds ! 2)) = Inr ?tree"
    by code_simp
  have v: "get_text [] (?tds ! 0) = ''123''" "get_text '' '' (?tds ! 1) = ''What is OSPF?''"
    "render ?P ?D ?tree = ''<span style='' @ [CHR 0x22] @ ''color:red'' @ [CHR 0x22]
                     @ ''>Link-state</span> protocol''"
    "tags_from_cell (current (map (put_contents (ident (fst (?tds ! 2))) ?tree) ?doc) (?tds ! 3))
       = ''OSPF-LSA Routing''"
    by code_simp+
  from e(1) tr have "tree = ?tree" by simp
  with e(2) v cm(4) have "\<exists>d. convert_row ?P ?D ?cm ?doc ?tds
     = Inr (\<lparr>Notion_ID = ''123'', Front = ''What is OSPF?'',
            Back = ''<span style='' @ [CHR 0x22] @ ''color:red'' @ [CHR 0x22]
                     @ ''>Link-state</span> protocol'',
            Tags = ''OSPF-LSA Routing''\<rparr>, d)"
    by simp
  with d tds have "cards = [\<lparr>Notion_ID = ''123'', Front = ''What is OSPF?'',
            Back = ''<span style='' @ [CHR 0x22] @ ''color:red'' @ [CHR 0x22]
                     @ ''>Link-state</span> protocol'',
            Tags = ''OSPF-LSA Routing''\<rparr>]"
    by auto
  with f c(1) show ?thesis by simp
qed

text \<open>
  C2, counterexample to the claim as stated (every row with at least one cell is read
  without an error and gives one record). In the first document the headers are
  Notion-ID, Front and Back and the only row has one cell, so reading the front cell at
  index 1 raises \<open>IndexError\<close>. In the second document the back cell of the only row of
  the body holds a table with a row of three cells: sanitizing the back cell unwraps that
  row and its cells, so the inner row has no cell left when the loop reaches it and gives
  no record, and the tags cell, which is the first inner cell, is read empty.
\<close>

theorem short_row_counterexample:
  "convert_file (\<lambda>s. []) (\<lambda>ns. [])
     [Element \<lparr>ident = 1, name = ''table'', cls = None, attrs = []\<rparr>
        [Element \<lparr>ident = 2, name = ''thead'', cls = None, attrs = []\<rparr>
           [Element \<lparr>ident = 3, name = ''tr'', cls = None, attrs = []\<rparr>
              [Element \<lparr>ident = 4, name = ''th'', cls = None, attrs = []\<rparr> [Text ''Notion-ID''],
               Element \<lparr>ident = 5, name = ''th'', cls = None, attrs = []\<rparr> [Text ''Front''],
               Element \<lparr>ident = 6, name = ''th'', cls = None, attrs = []\<rparr> [Text ''Back'']]],
         Element \<lparr>ident = 7, name = ''tbody'', cls = None, attrs = []\<rparr>
           [Element \<lparr>ident = 8, name = ''tr'', cls = None, attrs = []\<rparr>
              [Element \<lparr>ident = 9, name = ''td'', cls = None, attrs = []\<rparr> [Text ''123'']]]]]
   = Inl IndexError \<and>
   convert_file (\<lambda>s. [Text s]) (\<lambda>ns. concat (concat (map all_strings ns)))
     [Element \<lparr>ident = 1, name = ''table'', cls = None, attrs = []\<rparr>
        [Element \<lparr>ident = 2, name = ''thead'', cls = None, attrs = []\<rparr>
           [Element \<lparr>ident = 3, name = ''th'', cls = None, attrs = []\<rparr> [Text ''Notion-ID''],
            Element \<lparr>ident = 4, name = ''th'', cls = None, attrs = []\<rparr> [Text ''Front''],
            Element \<lparr>ident = 5, name = ''th'', cls = None, attrs = []\<rparr> [Text ''Back''],
            Element \<lparr>ident = 6, name = ''th'', cls = None, attrs = []\<rparr> [Text ''Tags'']],
         Element \<lparr>ident = 7, name = ''tbody'', cls = None, attrs = []\<rparr>
           [Element \<lparr>ident = 8, name = ''tr'', cls = None, attrs = []\<rparr>
              [Element \<lparr>ident = 9, name = ''td'', cls = None, attrs = []\<rparr> [Text ''1''],
               Element \<lparr>ident = 10, name = ''td'', cls = None, attrs = []\<rparr> [Text ''q''],
               Element \<lparr>ident = 11, name = ''td'', cls = None, attrs = []\<rparr>
                 [Element \<lparr>ident = 12, name = ''table'', cls = None, attrs = []\<rparr>
                    [Element \<lparr>ident = 13, name = ''tr'', cls = None, attrs = []\<rparr>
                       [Element \<lparr>ident = 14, name = ''td'', cls = None, attrs = []\<rparr>
                          [Text ''x''],
                        Element \<lparr>ident = 15, name = ''td'', cls = None, attrs = []\<rparr>
                          [Text ''y''],
                        Element \<lparr>ident = 16, name = ''td'', cls = None, attrs = []\<rparr>
                          [Text ''z'']]]]]]]]
   = Inr [\<lparr>Notion_ID = ''1'', Front = ''q'', Back = ''xyz'', Tags = []\<rparr>]"
  by code_simp

end
